theory Spec2Isabelle
  imports Main
begin

section \<open>Values, errors and dictionaries\<close>

text \<open>
  The parser of httprunner (\<^verbatim>\<open>src/httprunner/parser.py\<close>) works on dynamically typed
  Python values. They are modelled by one datatype. \<open>PObj\<close> stands for every object the
  parser passes through untouched (floats, type objects, anything else), named by an
  opaque tag. A dict is an association list in insertion order with pairwise distinct
  keys; a set is the list of its elements in iteration order.

  Every lazy object carries the identity it received when it was constructed
  (\<open>ls_id\<close>, \<open>lf_id\<close>), so that the one field that is written after construction,
  \<^verbatim>\<open>LazyFunction.cache_key\<close>, can live in a store indexed by that identity. The fields
  \<^verbatim>\<open>functions_mapping\<close> and \<^verbatim>\<open>check_variables_set\<close> of the two classes are
  read by the constructors only and are passed as arguments there.
\<close>

datatype error =
    ParamsError
  | VariableNotFound string
  | FunctionNotFound string
  | IndexError
  | KeyError
  | ValueError
  | TypeError
  | AttributeError
  | Raised string

text \<open>
  A callable object: the two helpers the parser names itself (\<^verbatim>\<open>loader.load_csv_file\<close>,
  \<^verbatim>\<open>utils.get_os_environ\<close>), or any other function, given by its \<^verbatim>\<open>__name__\<close> and an
  identity.
\<close>

datatype callable = LoadCsvFile | GetOsEnviron | Function string nat

fun func_name :: "callable \<Rightarrow> string" where
  "func_name LoadCsvFile = ''load_csv_file''"
| "func_name GetOsEnviron = ''get_os_environ''"
| "func_name (Function name ident) = name"

datatype pyval =
    PNone
  | PBool bool
  | PInt int
  | PObj string
  | PStr string
  | PList "pyval list"
  | PTuple "pyval list"
  | PSet "pyval list"
  | PDict "(pyval \<times> pyval) list"
  | PLazy lazy_string
and lazy_string =
    LazyString (ls_id: nat) (raw_string: string) (ls_string: string)
               (ls_args: "lazy_arg list") (ls_cached: bool)
and lazy_arg =
    VarRef string
  | FuncRef lazy_function
and lazy_function =
    LazyFunction (lf_id: nat) (lf_func: callable) (lf_args: "pyval list")
                 (lf_kwargs: "(pyval \<times> pyval) list")

text \<open>\<^verbatim>\<open>key in d\<close>, \<^verbatim>\<open>d.get(key, default)\<close> and \<^verbatim>\<open>len(d)\<close> on an association list.\<close>

definition dict_has :: "('k \<times> 'v) list \<Rightarrow> 'k \<Rightarrow> bool" where
  "dict_has d k = (k \<in> set (map fst d))"

definition dict_get :: "('k \<times> 'v) list \<Rightarrow> 'k \<Rightarrow> 'v \<Rightarrow> 'v" where
  "dict_get d k dflt = (case map_of d k of Some v \<Rightarrow> v | None \<Rightarrow> dflt)"

section \<open>Validator normalization\<close>

text \<open>
  \<^verbatim>\<open>parse_validator\<close> (parser.py, lines 108 to 164). The returned dict literal lists
  its keys in the order check, expect, comparator.
\<close>

definition validator_dict :: "pyval \<Rightarrow> pyval \<Rightarrow> pyval \<Rightarrow> pyval" where
  "validator_dict check_item expect_value comparator =
     PDict [(PStr ''check'', check_item), (PStr ''expect'', expect_value),
            (PStr ''comparator'', comparator)]"

definition two_entries :: "pyval \<Rightarrow> (pyval \<times> pyval) option" where
  \<comment> \<open>\<^verbatim>\<open>isinstance(v, list) and len(v) == 2\<close>, with the two entries unpacked\<close>
  "two_entries v = (case v of PList [a, b] \<Rightarrow> Some (a, b) | _ \<Rightarrow> None)"

definition parse_validator :: "pyval \<Rightarrow> error + pyval" where
  "parse_validator validator =
     (case validator of
        PDict d \<Rightarrow>
          if dict_has d (PStr ''check'') \<and> length d > 1 then
            (let check_item = dict_get d (PStr ''check'') PNone in
             if dict_has d (PStr ''expect'') then
               Inr (validator_dict check_item (dict_get d (PStr ''expect'') PNone)
                      (dict_get d (PStr ''comparator'') (PStr ''eq'')))
             else if dict_has d (PStr ''expected'') then
               Inr (validator_dict check_item (dict_get d (PStr ''expected'') PNone)
                      (dict_get d (PStr ''comparator'') (PStr ''eq'')))
             else Inl ParamsError)
          else if length d = 1 then
            (case d of
               [(comparator, compare_values)] \<Rightarrow>
                 (case two_entries compare_values of
                    None \<Rightarrow> Inl ParamsError
                  | Some (check_item, expect_value) \<Rightarrow>
                      Inr (validator_dict check_item expect_value comparator))
             | _ \<Rightarrow> Inl ParamsError)
          else Inl ParamsError
      | _ \<Rightarrow> Inl ParamsError)"

text \<open>
  The two accepted shapes, written from the specification: the legacy form has a
  \<open>check\<close> key, at least one other key, and an expected value under \<open>expect\<close> or
  \<open>expected\<close>; the compact form has the comparator as its sole key, mapped to a list of
  exactly two entries.
\<close>

definition spec_legacy :: "pyval \<Rightarrow> bool" where
  "spec_legacy v =
     (case v of
        PDict d \<Rightarrow> PStr ''check'' \<in> fst ` set d \<and> 2 \<le> length d \<and>
                   (PStr ''expect'' \<in> fst ` set d \<or> PStr ''expected'' \<in> fst ` set d)
      | _ \<Rightarrow> False)"

definition spec_legacy_result :: "pyval \<Rightarrow> pyval" where
  "spec_legacy_result v =
     (case v of
        PDict d \<Rightarrow>
          PDict [(PStr ''check'', the (map_of d (PStr ''check''))),
                 (PStr ''expect'',
                    case map_of d (PStr ''expect'') of
                      Some e \<Rightarrow> e
                    | None \<Rightarrow> the (map_of d (PStr ''expected''))),
                 (PStr ''comparator'',
                    case map_of d (PStr ''comparator'') of Some c \<Rightarrow> c | None \<Rightarrow> PStr ''eq'')]
      | _ \<Rightarrow> PNone)"

definition spec_compact :: "pyval \<Rightarrow> bool" where
  "spec_compact v = (\<exists>op x e. v = PDict [(op, PList [x, e])])"


section \<open>Strings and the two regular expressions\<close>

text \<open>
  A string is a list of characters with code points below 256. \<open>is_word\<close> is the class
  of word characters and \<open>is_space\<close> the class of whitespace characters of a pattern
  compiled without flags on a \<^verbatim>\<open>str\<close>: the alphanumeric characters and the underscore,
  and the characters that \<^verbatim>\<open>str.isspace\<close> accepts, which are also those that
  \<^verbatim>\<open>str.strip\<close> removes.
\<close>

definition is_word :: "char \<Rightarrow> bool" where
  "is_word c =
     (let n = (of_char c :: nat)
      in (48 \<le> n \<and> n \<le> 57) \<or> (65 \<le> n \<and> n \<le> 90) \<or> (97 \<le> n \<and> n \<le> 122) \<or> n = 95
         \<or> n = 170 \<or> n = 178 \<or> n = 179 \<or> n = 181 \<or> n = 185 \<or> n = 186
         \<or> (188 \<le> n \<and> n \<le> 190) \<or> (192 \<le> n \<and> n \<le> 214) \<or> (216 \<le> n \<and> n \<le> 246)
         \<or> (248 \<le> n \<and> n \<le> 255))"

definition is_space :: "char \<Rightarrow> bool" where
  "is_space c =
     (let n = (of_char c :: nat)
      in (9 \<le> n \<and> n \<le> 13) \<or> (28 \<le> n \<and> n \<le> 32) \<or> n = 133 \<or> n = 160)"

definition is_param_char :: "char \<Rightarrow> bool" where
  "is_param_char c = (c = CHR ''$'' \<or> is_word c \<or> c = CHR ''.'' \<or> c = CHR ''-'' \<or> c = CHR ''/''
                       \<or> is_space c \<or> c = CHR ''='' \<or> c = CHR '','')"

definition match_variable :: "string \<Rightarrow> (string \<times> string) option" where
  "match_variable s =
     (case s of
        [] \<Rightarrow> None
      | c # t \<Rightarrow>
          if c = CHR ''$'' \<and> takeWhile is_word t \<noteq> []
          then Some (takeWhile is_word t, dropWhile is_word t)
          else None)"

definition match_function :: "string \<Rightarrow> ((string \<times> string) \<times> string) option" where
  "match_function s =
     (case s of
        c1 # c2 # t \<Rightarrow>
          if c1 = CHR ''$'' \<and> c2 = CHR ''{'' \<and> takeWhile is_word t \<noteq> [] then
            (case dropWhile is_word t of
               c3 # u \<Rightarrow>
                 if c3 = CHR ''('' then
                   (case dropWhile is_param_char u of
                      c4 # c5 # rest \<Rightarrow>
                        if c4 = CHR '')'' \<and> c5 = CHR ''}''
                        then Some ((takeWhile is_word t, takeWhile is_param_char u), rest)
                        else None
                    | _ \<Rightarrow> None)
                 else None
             | [] \<Rightarrow> None)
          else None
      | _ \<Rightarrow> None)"

lemma match_variable_length:
  "match_variable s = Some (name, rest) \<Longrightarrow> length rest < length s"
  by (auto simp: match_variable_def split: list.splits if_splits
           intro: le_imp_less_Suc length_dropWhile_le)

lemma match_function_length:
  assumes "match_function s = Some (m, rest)"
  shows "length rest < length s"
proof -
  from assms obtain c1 c2 t c3 u c4 c5 where s: "s = c1 # c2 # t"
    and d1: "dropWhile is_word t = c3 # u"
    and d2: "dropWhile is_param_char u = c4 # c5 # rest"
    by (auto simp: match_function_def split: list.splits if_splits)
  have "length (dropWhile is_word t) \<le> length t" by (rule length_dropWhile_le)
  moreover have "length (dropWhile is_param_char u) \<le> length u" by (rule length_dropWhile_le)
  ultimately show ?thesis using s d1 d2 by simp
qed

function regex_findall_variables :: "string \<Rightarrow> string list" where
  "regex_findall_variables [] = []"
| "regex_findall_variables (c # t) =
     (case match_variable (c # t) of
        Some (name, rest) \<Rightarrow> name # regex_findall_variables rest
      | None \<Rightarrow> regex_findall_variables t)"
  by pat_completeness auto
termination
  by (relation "measure length") (auto dest: match_variable_length)

function regex_findall_functions :: "string \<Rightarrow> (string \<times> string) list" where
  "regex_findall_functions [] = []"
| "regex_findall_functions (c # t) =
     (case match_function (c # t) of
        Some (m, rest) \<Rightarrow> m # regex_findall_functions rest
      | None \<Rightarrow> regex_findall_functions t)"
  by pat_completeness auto
termination
  by (relation "measure length") (auto dest: match_function_length)

definition is_variable_exist :: "pyval \<Rightarrow> bool" where
  "is_variable_exist content =
     (case content of PStr s \<Rightarrow> regex_findall_variables s \<noteq> [] | _ \<Rightarrow> False)"

definition is_function_exist :: "pyval \<Rightarrow> bool" where
  "is_function_exist content =
     (case content of PStr s \<Rightarrow> regex_findall_functions s \<noteq> [] | _ \<Rightarrow> False)"

text \<open>\<^verbatim>\<open>s.index(sub, start)\<close>: the lowest index from \<open>start\<close> on at which \<open>sub\<close> occurs; \<open>None\<close> is the \<^verbatim>\<open>ValueError\<close>.\<close>

fun find_sub :: "string \<Rightarrow> string \<Rightarrow> nat option" where
  "find_sub sub [] = (if sub = [] then Some 0 else None)"
| "find_sub sub (c # t) =
     (if take (length sub) (c # t) = sub then Some 0 else map_option Suc (find_sub sub t))"

definition str_index :: "string \<Rightarrow> string \<Rightarrow> nat \<Rightarrow> nat option" where
  "str_index s sub start =
     (if start \<le> length s then map_option (\<lambda>i. start + i) (find_sub sub (drop start s)) else None)"

text \<open>\<^verbatim>\<open>s.replace(old, new, 1)\<close>: the leftmost occurrence is replaced, if there is one.\<close>

fun replace_first :: "string \<Rightarrow> string \<Rightarrow> string \<Rightarrow> string" where
  "replace_first old new [] = (if old = [] then new else [])"
| "replace_first old new (c # t) =
     (if take (length old) (c # t) = old then new @ drop (length old) (c # t)
      else c # replace_first old new t)"

definition strip :: "string \<Rightarrow> string" where
  "strip s = rev (dropWhile is_space (rev (dropWhile is_space s)))"

fun split_on :: "char \<Rightarrow> string \<Rightarrow> string list" where
  "split_on sep [] = [[]]"
| "split_on sep (c # t) =
     (if c = sep then [] # split_on sep t
      else (case split_on sep t of x # xs \<Rightarrow> (c # x) # xs | [] \<Rightarrow> [[c]]))"


section \<open>The environment of the parser\<close>

text \<open>
  What the parser takes from outside its own file is gathered in a record:
  \<^item> \<open>builtin_functions\<close>: the dict returned by \<^verbatim>\<open>loader.load_builtin_functions()\<close>;
  \<^item> \<open>host_eval\<close>: the outcome of Python's \<^verbatim>\<open>eval(function_name)\<close>;
  \<^item> \<open>literal_eval\<close>: \<^verbatim>\<open>ast.literal_eval\<close>, \<open>None\<close> when it raises \<^verbatim>\<open>ValueError\<close> or
    \<^verbatim>\<open>SyntaxError\<close>. The text of a function argument has no quote and no bracket, so a
    literal in it is a number, \<^verbatim>\<open>True\<close>, \<^verbatim>\<open>False\<close>, \<^verbatim>\<open>None\<close> or another atom;
  \<^item> \<open>py_str\<close>, \<open>py_repr\<close>: Python's \<^verbatim>\<open>str\<close> (as used by \<^verbatim>\<open>str.format\<close>) and \<^verbatim>\<open>repr\<close>;
  \<^item> \<open>format_other\<close>: the result of \<^verbatim>\<open>str.format\<close> on a template that has a
    replacement field other than the plain \<^verbatim>\<open>{}\<close>;
  \<^item> \<open>call\<close>: calling a function object with positional and keyword arguments in a
    world \<open>'w\<close>, which the call may change.
\<close>

datatype literal = LitNone | LitBool bool | LitInt int | LitObj string

fun of_literal :: "literal \<Rightarrow> pyval" where
  "of_literal LitNone = PNone"
| "of_literal (LitBool b) = PBool b"
| "of_literal (LitInt i) = PInt i"
| "of_literal (LitObj x) = PObj x"

datatype eval_outcome =
    EvalCallable callable
  | EvalNotCallable
  | EvalNameOrTypeError
  | EvalRaised error

record 'w env =
  builtin_functions :: "string \<Rightarrow> callable option"
  host_eval :: "string \<Rightarrow> eval_outcome"
  literal_eval :: "string \<Rightarrow> literal option"
  py_str :: "pyval \<Rightarrow> string"
  py_repr :: "pyval \<Rightarrow> string"
  format_other :: "string \<Rightarrow> pyval list \<Rightarrow> error + string"
  call :: "callable \<Rightarrow> pyval list \<Rightarrow> (pyval \<times> pyval) list \<Rightarrow> 'w \<Rightarrow> (error + pyval) \<times> 'w"

section \<open>Function lookup and argument parsing\<close>

text \<open>
  \<^verbatim>\<open>get_mapping_function\<close> (lines 284 to 325). The result \<open>Inr None\<close> is the Python
  function reaching its end without a \<^verbatim>\<open>return\<close>, which yields \<^verbatim>\<open>None\<close>: the second
  \<^verbatim>\<open>try\<close> returns only when \<^verbatim>\<open>callable(item_func)\<close> holds and catches only
  \<^verbatim>\<open>NameError\<close> and \<^verbatim>\<open>TypeError\<close>.
\<close>

definition get_mapping_function ::
  "'w env \<Rightarrow> string \<Rightarrow> (string \<Rightarrow> callable option) \<Rightarrow> error + callable option" where
  "get_mapping_function E function_name functions_mapping =
     (case functions_mapping function_name of
        Some f \<Rightarrow> Inr (Some f)
      | None \<Rightarrow>
          if function_name \<in> set [''parameterize'', ''P''] then Inr (Some LoadCsvFile)
          else if function_name \<in> set [''environ'', ''ENV''] then Inr (Some GetOsEnviron)
          else
            (case builtin_functions E function_name of
               Some f \<Rightarrow> Inr (Some f)
             | None \<Rightarrow>
                 (case host_eval E function_name of
                    EvalCallable item_func \<Rightarrow> Inr (Some item_func)
                  | EvalNotCallable \<Rightarrow> Inr None
                  | EvalNameOrTypeError \<Rightarrow>
                      Inl (FunctionNotFound (function_name @ '' is not found.''))
                  | EvalRaised e \<Rightarrow> Inl e)))"

definition parse_string_value :: "'w env \<Rightarrow> string \<Rightarrow> pyval" where
  "parse_string_value E str_value =
     (case literal_eval E str_value of Some l \<Rightarrow> of_literal l | None \<Rightarrow> PStr str_value)"

text \<open>
  \<^verbatim>\<open>d[key] = value\<close>: the value of an existing key is replaced in place, a new key is
  appended. \<open>dict_set\<close> is the assignment on a dict whose keys are all strings or all
  offsets, which are equal only when they are the same.
\<close>

fun dict_set :: "('k \<times> 'v) list \<Rightarrow> 'k \<Rightarrow> 'v \<Rightarrow> ('k \<times> 'v) list" where
  "dict_set [] k v = [(k, v)]"
| "dict_set ((k', v') # d) k v = (if k' = k then (k', v) # d else (k', v') # dict_set d k v)"

text \<open>
  The keys of a dict of values are compared with \<^verbatim>\<open>==\<close>, under which \<^verbatim>\<open>True\<close> is the
  integer 1 and \<^verbatim>\<open>False\<close> the integer 0, also as members of a tuple; two values of
  the other hashable kinds are equal when they are the same. \<open>pydict_set\<close> is the
  assignment on such a dict: the key that is already there stays, with the new value.
  A float is a \<open>PObj\<close> and is taken to be equal to no integer, so a dict that holds an
  integer and the float of the same value as two keys is outside the model.
\<close>

fun key_norm :: "pyval \<Rightarrow> pyval" where
  "key_norm (PBool b) = PInt (if b then 1 else 0)"
| "key_norm (PTuple xs) = PTuple (map key_norm xs)"
| "key_norm v = v"

definition key_eq :: "pyval \<Rightarrow> pyval \<Rightarrow> bool" where
  "key_eq a b = (key_norm a = key_norm b)"

fun pydict_set :: "(pyval \<times> pyval) list \<Rightarrow> pyval \<Rightarrow> pyval \<Rightarrow> (pyval \<times> pyval) list" where
  "pydict_set [] k v = [(k, v)]"
| "pydict_set ((k', v') # d) k v =
     (if key_eq k' k then (k', v) # d else (k', v') # pydict_set d k v)"

text \<open>
  \<^verbatim>\<open>parse_function_params\<close> (lines 328 to 377); the pair is the dict with the keys
  \<open>args\<close> and \<open>kwargs\<close>. \<^verbatim>\<open>key, value = arg.split('=')\<close> raises \<^verbatim>\<open>ValueError\<close> unless the
  split has exactly two parts.
\<close>

fun params_loop ::
  "'w env \<Rightarrow> string list \<Rightarrow> pyval list \<Rightarrow> (pyval \<times> pyval) list
     \<Rightarrow> error + (pyval list \<times> (pyval \<times> pyval) list)" where
  "params_loop E [] args kwargs = Inr (args, kwargs)"
| "params_loop E (a # args_list) args kwargs =
     (let arg = strip a in
      if CHR ''='' \<in> set arg then
        (case split_on (CHR ''='') arg of
           [key, value] \<Rightarrow>
             params_loop E args_list args
               (pydict_set kwargs (PStr (strip key)) (parse_string_value E (strip value)))
         | _ \<Rightarrow> Inl ValueError)
      else params_loop E args_list (args @ [parse_string_value E arg]) kwargs)"

definition parse_function_params ::
  "'w env \<Rightarrow> string \<Rightarrow> error + (pyval list \<times> (pyval \<times> pyval) list)" where
  "parse_function_params E params =
     (let params_str = strip params in
      if params_str = [] then Inr ([], [])
      else params_loop E (split_on (CHR '','') params_str) [] [])"

section \<open>Preparation: building lazy values\<close>

text \<open>
  A list, a set and a dict cannot be hashed, so they cannot be dict keys; a tuple can
  when its members can. Other objects are taken to be hashable.
\<close>

fun hashable :: "pyval \<Rightarrow> bool" and hashable_list :: "pyval list \<Rightarrow> bool" where
  "hashable (PList xs) = False"
| "hashable (PSet xs) = False"
| "hashable (PDict d) = False"
| "hashable (PTuple xs) = hashable_list xs"
| "hashable PNone = True"
| "hashable (PBool b) = True"
| "hashable (PInt i) = True"
| "hashable (PObj x) = True"
| "hashable (PStr s) = True"
| "hashable (PLazy l) = True"
| "hashable_list [] = True"
| "hashable_list (x # xs) = (hashable x \<and> hashable_list xs)"

text \<open>
  The second loop of \<^verbatim>\<open>LazyString.__parse\<close> (lines 500 to 514). The list of names was
  computed from the working copy before the loop; \<^verbatim>\<open>index\<close> searches the raw string
  from the position of the previous find, and \<^verbatim>\<open>replace\<close> acts on the working copy.
\<close>

fun variables_loop ::
  "string set \<Rightarrow> string \<Rightarrow> string list \<Rightarrow> nat \<Rightarrow> string \<Rightarrow> (nat \<times> lazy_arg) list
     \<Rightarrow> error + (string \<times> (nat \<times> lazy_arg) list)" where
  "variables_loop check_variables_set raw [] match_start_position working args_mapping =
     Inr (working, args_mapping)"
| "variables_loop check_variables_set raw (var_name # var_match_list) match_start_position
       working args_mapping =
     (if var_name \<notin> check_variables_set then Inl (VariableNotFound var_name)
      else
        (let var = CHR ''$'' # var_name in
         case str_index raw var match_start_position of
           None \<Rightarrow> Inl ValueError
         | Some pos \<Rightarrow>
             variables_loop check_variables_set raw var_match_list pos
               (replace_first var ''{}'' working)
               (dict_set args_mapping pos (VarRef var_name))))"

text \<open>A measure for the recursion of the preparation: the text held by a value.\<close>

function vsize :: "pyval \<Rightarrow> nat" and vsize_list :: "pyval list \<Rightarrow> nat"
  and vsize_dict :: "(pyval \<times> pyval) list \<Rightarrow> nat" where
  "vsize (PStr s) = Suc (length s)"
| "vsize (PList xs) = Suc (vsize_list xs)"
| "vsize (PTuple xs) = Suc (vsize_list xs)"
| "vsize (PSet xs) = Suc (vsize_list xs)"
| "vsize (PDict d) = Suc (vsize_dict d)"
| "vsize PNone = 1"
| "vsize (PBool b) = 1"
| "vsize (PInt i) = 1"
| "vsize (PObj x) = 1"
| "vsize (PLazy l) = 1"
| "vsize_list [] = 0"
| "vsize_list (x # xs) = vsize x + vsize_list xs"
| "vsize_dict [] = 0"
| "vsize_dict ((k, v) # d) = vsize k + vsize v + vsize_dict d"
  by pat_completeness auto
termination
  by (relation "measure (\<lambda>x. case x of
        Inl v \<Rightarrow> size v
      | Inr (Inl xs) \<Rightarrow> size_list size xs
      | Inr (Inr d) \<Rightarrow> size_list (size_prod size size) d)") auto

definition matches_weight :: "(string \<times> string) list \<Rightarrow> nat" where
  "matches_weight ms = sum_list (map (\<lambda>m. length (snd m) + 4) ms)"

lemma vsize_pos: "0 < vsize v"
  by (cases v) simp_all

lemma vsize_list_append: "vsize_list (xs @ ys) = vsize_list xs + vsize_list ys"
  by (induction xs) simp_all

lemma vsize_dict_set: "vsize_dict (pydict_set d k v) \<le> vsize_dict d + vsize k + vsize v"
  by (induction d k v rule: pydict_set.induct) auto

lemma vsize_of_literal: "vsize (of_literal l) = 1"
  by (cases l) simp_all

lemma vsize_parse_string_value: "vsize (parse_string_value E s) \<le> Suc (length s)"
  by (simp add: parse_string_value_def vsize_of_literal split: option.splits)

lemma length_strip: "length (strip s) \<le> length s"
proof -
  have "length (strip s) \<le> length (dropWhile is_space s)"
    unfolding strip_def using length_dropWhile_le [of is_space "rev (dropWhile is_space s)"]
    by simp
  also have "\<dots> \<le> length s" by (rule length_dropWhile_le)
  finally show ?thesis .
qed

lemma split_on_not_Nil: "split_on sep s \<noteq> []"
  by (induction s) (auto split: list.splits)

lemma split_on_weight:
  "sum_list (map (\<lambda>x. Suc (length x)) (split_on sep s)) = Suc (length s)"
  by (induction s) (auto split: list.splits simp: split_on_not_Nil)

lemma params_loop_size:
  "params_loop E frags args kwargs = Inr (args', kwargs') \<Longrightarrow>
     vsize_list args' + vsize_dict kwargs'
       \<le> vsize_list args + vsize_dict kwargs + sum_list (map (\<lambda>x. Suc (length x)) frags)"
proof (induction frags arbitrary: args kwargs)
  case Nil
  then show ?case by simp
next
  case (Cons a frags)
  show ?case
  proof (cases "CHR ''='' \<in> set (strip a)")
    case True
    with Cons.prems obtain key val where kv: "split_on (CHR ''='') (strip a) = [key, val]"
      and rec: "params_loop E frags args
            (pydict_set kwargs (PStr (strip key)) (parse_string_value E (strip val)))
          = Inr (args', kwargs')"
      by (auto simp: Let_def split: list.splits)
    from split_on_weight [of "CHR ''=''" "strip a"] kv
    have "length key + length val < length (strip a)" by simp
    with length_strip [of a] have len: "length key + length val < length a" by simp
    have "vsize (PStr (strip key)) + vsize (parse_string_value E (strip val))
            \<le> Suc (length (strip key)) + Suc (length (strip val))"
      using vsize_parse_string_value [of E "strip val"] by simp
    also have "\<dots> \<le> Suc (length key) + Suc (length val)"
      using length_strip [of key] length_strip [of val] by simp
    also have "\<dots> \<le> Suc (length a)" using len by simp
    finally have step: "vsize (PStr (strip key)) + vsize (parse_string_value E (strip val))
            \<le> Suc (length a)" .
    from Cons.IH [OF rec] vsize_dict_set [of kwargs "PStr (strip key)"
        "parse_string_value E (strip val)"] step
    show ?thesis by simp
  next
    case False
    with Cons.prems have rec: "params_loop E frags (args @ [parse_string_value E (strip a)]) kwargs
          = Inr (args', kwargs')"
      by (simp add: Let_def)
    have "vsize (parse_string_value E (strip a)) \<le> Suc (length a)"
      using vsize_parse_string_value [of E "strip a"] length_strip [of a] by simp
    with Cons.IH [OF rec] show ?thesis by (simp add: vsize_list_append)
  qed
qed

lemma parse_function_params_size:
  assumes "parse_function_params E params = Inr (args, kwargs)"
  shows "vsize_list args + vsize_dict kwargs \<le> Suc (length params)"
proof (cases "strip params = []")
  case True
  with assms show ?thesis by (simp add: parse_function_params_def)
next
  case False
  with assms have "params_loop E (split_on (CHR '','') (strip params)) [] [] = Inr (args, kwargs)"
    by (simp add: parse_function_params_def)
  from params_loop_size [OF this] have "vsize_list args + vsize_dict kwargs \<le> Suc (length (strip params))"
    by (simp add: split_on_weight)
  with length_strip [of params] show ?thesis by simp
qed

lemma match_function_weight:
  assumes "match_function s = Some (m, rest)"
  shows "length (snd m) + 6 + length rest \<le> length s"
proof -
  from assms obtain c1 c2 t c3 u c4 c5 where s: "s = c1 # c2 # t"
    and n: "takeWhile is_word t \<noteq> []"
    and d1: "dropWhile is_word t = c3 # u"
    and d2: "dropWhile is_param_char u = c4 # c5 # rest"
    and m: "m = (takeWhile is_word t, takeWhile is_param_char u)"
    by (auto simp: match_function_def split: list.splits if_splits)
  have "length t = length (takeWhile is_word t) + length (dropWhile is_word t)"
    by (metis length_append takeWhile_dropWhile_id)
  moreover have "length u = length (takeWhile is_param_char u) + length (dropWhile is_param_char u)"
    by (metis length_append takeWhile_dropWhile_id)
  moreover from n have "Suc 0 \<le> length (takeWhile is_word t)"
    by (cases "takeWhile is_word t") simp_all
  ultimately show ?thesis using s d1 d2 m by simp
qed

lemma matches_weight_findall: "matches_weight (regex_findall_functions s) \<le> length s"
proof (induction s rule: regex_findall_functions.induct)
  case 1
  then show ?case by (simp add: matches_weight_def)
next
  case (2 c t)
  show ?case
  proof (cases "match_function (c # t)")
    case None
    with 2 show ?thesis by simp
  next
    case (Some a)
    obtain m rest where a: "a = (m, rest)" by (cases a)
    from 2(2) [OF Some a [symmetric]]
    have "matches_weight (regex_findall_functions rest) \<le> length rest" .
    with match_function_weight [OF Some [unfolded a]] Some a show ?thesis
      by (simp add: matches_weight_def)
  qed
qed

text \<open>
  \<^verbatim>\<open>prepare_lazy_data\<close> (lines 547 to 599) with the constructors of the two lazy
  classes (\<^verbatim>\<open>LazyString.__init__\<close> and \<^verbatim>\<open>__parse\<close>, lines 455 to 516;
  \<^verbatim>\<open>LazyFunction.__init__\<close> and \<^verbatim>\<open>__parse\<close>, lines 383 to 428). The natural number
  threaded through is the next unused object identity. \<open>prepare_items\<close> is the list
  comprehension of the list branch and \<open>prepare_dict\<close> the loop of the dict branch;
  \<open>functions_loop\<close> is the first loop of \<^verbatim>\<open>LazyString.__parse\<close> (lines 482 to 498).
  \<^verbatim>\<open>LazyFunction.__parse\<close> passes a list and a dict to \<^verbatim>\<open>prepare_lazy_data\<close> without
  the \<^verbatim>\<open>cached\<close> argument, which therefore is \<^verbatim>\<open>False\<close> there.
\<close>

function
  prepare_lazy_data ::
    "'w env \<Rightarrow> (string \<Rightarrow> callable option) \<Rightarrow> string set \<Rightarrow> bool \<Rightarrow> pyval \<Rightarrow> nat
       \<Rightarrow> error + (pyval \<times> nat)"
  and prepare_items ::
    "'w env \<Rightarrow> (string \<Rightarrow> callable option) \<Rightarrow> string set \<Rightarrow> bool \<Rightarrow> pyval list \<Rightarrow> nat
       \<Rightarrow> error + (pyval list \<times> nat)"
  and prepare_dict ::
    "'w env \<Rightarrow> (string \<Rightarrow> callable option) \<Rightarrow> string set \<Rightarrow> bool \<Rightarrow> (pyval \<times> pyval) list
       \<Rightarrow> (pyval \<times> pyval) list \<Rightarrow> nat \<Rightarrow> error + ((pyval \<times> pyval) list \<times> nat)"
  and LazyString_init ::
    "'w env \<Rightarrow> (string \<Rightarrow> callable option) \<Rightarrow> string set \<Rightarrow> bool \<Rightarrow> string \<Rightarrow> nat
       \<Rightarrow> error + (lazy_string \<times> nat)"
  and functions_loop ::
    "'w env \<Rightarrow> (string \<Rightarrow> callable option) \<Rightarrow> string set \<Rightarrow> string
       \<Rightarrow> (string \<times> string) list \<Rightarrow> nat \<Rightarrow> string \<Rightarrow> (nat \<times> lazy_arg) list \<Rightarrow> nat
       \<Rightarrow> error + (string \<times> (nat \<times> lazy_arg) list \<times> nat)"
  and LazyFunction_init ::
    "'w env \<Rightarrow> (string \<Rightarrow> callable option) \<Rightarrow> string set \<Rightarrow> string \<Rightarrow> pyval list
       \<Rightarrow> (pyval \<times> pyval) list \<Rightarrow> nat \<Rightarrow> error + (lazy_function \<times> nat)"
where
  "prepare_lazy_data E fm cvs cached PNone n = Inr (PNone, n)"
| "prepare_lazy_data E fm cvs cached (PBool b) n = Inr (PBool b, n)"
| "prepare_lazy_data E fm cvs cached (PInt i) n = Inr (PInt i, n)"
| "prepare_lazy_data E fm cvs cached (PObj x) n = Inr (PObj x, n)"
| "prepare_lazy_data E fm cvs cached (PList items) n =
     (case prepare_items E fm cvs cached items n of
        Inl e \<Rightarrow> Inl e
      | Inr (xs, n') \<Rightarrow> Inr (PList xs, n'))"
| "prepare_lazy_data E fm cvs cached (PSet items) n =
     (case prepare_items E fm cvs cached items n of
        Inl e \<Rightarrow> Inl e
      | Inr (xs, n') \<Rightarrow> Inr (PList xs, n'))"
| "prepare_lazy_data E fm cvs cached (PTuple items) n =
     (case prepare_items E fm cvs cached items n of
        Inl e \<Rightarrow> Inl e
      | Inr (xs, n') \<Rightarrow> Inr (PList xs, n'))"
| "prepare_lazy_data E fm cvs cached (PDict d) n =
     (case prepare_dict E fm cvs cached d [] n of
        Inl e \<Rightarrow> Inl e
      | Inr (parsed_content, n') \<Rightarrow> Inr (PDict parsed_content, n'))"
| "prepare_lazy_data E fm cvs cached (PStr s) n =
     (if \<not> (is_variable_exist (PStr s) \<or> is_function_exist (PStr s)) then Inr (PStr s, n)
      else
        (case LazyString_init E fm cvs cached (strip s) n of
           Inl e \<Rightarrow> Inl e
         | Inr (l, n') \<Rightarrow> Inr (PLazy l, n')))"
| "prepare_lazy_data E fm cvs cached (PLazy l) n = Inr (PLazy l, n)"
| "prepare_items E fm cvs cached [] n = Inr ([], n)"
| "prepare_items E fm cvs cached (item # items) n =
     (case prepare_lazy_data E fm cvs cached item n of
        Inl e \<Rightarrow> Inl e
      | Inr (x, n1) \<Rightarrow>
          (case prepare_items E fm cvs cached items n1 of
             Inl e \<Rightarrow> Inl e
           | Inr (xs, n2) \<Rightarrow> Inr (x # xs, n2)))"
| "prepare_dict E fm cvs cached [] parsed_content n = Inr (parsed_content, n)"
| "prepare_dict E fm cvs cached ((key, val) # d) parsed_content n =
     (case prepare_lazy_data E fm cvs cached key n of
        Inl e \<Rightarrow> Inl e
      | Inr (parsed_key, n1) \<Rightarrow>
          (case prepare_lazy_data E fm cvs cached val n1 of
             Inl e \<Rightarrow> Inl e
           | Inr (parsed_value, n2) \<Rightarrow>
               if \<not> hashable parsed_key then Inl TypeError
               else prepare_dict E fm cvs cached d
                      (pydict_set parsed_content parsed_key parsed_value) n2))"
| "LazyString_init E fm cvs cached raw n =
     (case functions_loop E fm cvs raw (regex_findall_functions raw) 0 raw [] (Suc n) of
        Inl e \<Rightarrow> Inl e
      | Inr (working, args_mapping, n') \<Rightarrow>
          (case variables_loop cvs raw (regex_findall_variables working) 0 working
                  args_mapping of
             Inl e \<Rightarrow> Inl e
           | Inr (working', args_mapping') \<Rightarrow>
               Inr (LazyString n raw working' (map snd (sort_key fst args_mapping')) cached,
                    n')))"
| "functions_loop E fm cvs raw [] match_start_position working args_mapping n =
     Inr (working, args_mapping, n)"
| "functions_loop E fm cvs raw (func_match # func_match_list) match_start_position working
       args_mapping n =
     (let func_str = ''${'' @ fst func_match @ ''('' @ snd func_match @ '')}'' in
      case str_index raw func_str match_start_position of
        None \<Rightarrow> Inl ValueError
      | Some pos \<Rightarrow>
          (case parse_function_params E (snd func_match) of
             Inl e \<Rightarrow> Inl e
           | Inr (args, kwargs) \<Rightarrow>
               (case LazyFunction_init E fm cvs (fst func_match) args kwargs n of
                  Inl e \<Rightarrow> Inl e
                | Inr (lazy_func, n') \<Rightarrow>
                    functions_loop E fm cvs raw func_match_list pos
                      (replace_first func_str ''{}'' working)
                      (dict_set args_mapping pos (FuncRef lazy_func)) n')))"
| "LazyFunction_init E fm cvs name args kwargs n =
     (case get_mapping_function E name fm of
        Inl e \<Rightarrow> Inl e
      | Inr func \<Rightarrow>
          (case prepare_items E fm cvs False args (Suc n) of
             Inl e \<Rightarrow> Inl e
           | Inr (pargs, n1) \<Rightarrow>
               (case prepare_dict E fm cvs False kwargs [] n1 of
                  Inl e \<Rightarrow> Inl e
                | Inr (pkwargs, n2) \<Rightarrow>
                    (case func of
                       None \<Rightarrow> Inl AttributeError
                     | Some f \<Rightarrow>
                         if func_name f = ''load_csv_file'' \<or> func_name f = ''get_os_environ''
                         then
                           (if length pargs \<noteq> 1 \<or> pkwargs \<noteq> [] then Inl ParamsError
                            else Inr (LazyFunction n f [pargs ! 0] pkwargs, n2))
                         else Inr (LazyFunction n f pargs pkwargs, n2)))))"
  by pat_completeness auto
termination
proof (relation "measure (\<lambda>x. case x of
    Inl (Inl (E, fm, cvs, cached, content, n)) \<Rightarrow> 2 * vsize content
  | Inl (Inr (Inl (E, fm, cvs, cached, items, n))) \<Rightarrow> 2 * vsize_list items + 1
  | Inl (Inr (Inr (E, fm, cvs, cached, d, acc, n))) \<Rightarrow> 2 * vsize_dict d + 1
  | Inr (Inl (E, fm, cvs, cached, raw, n)) \<Rightarrow> 2 * length raw + 1
  | Inr (Inr (Inl (E, fm, cvs, raw, ms, pos, working, am, n))) \<Rightarrow> 2 * matches_weight ms
  | Inr (Inr (Inr (E, fm, cvs, name, args, kwargs, n))) \<Rightarrow>
      2 * (vsize_list args + vsize_dict kwargs) + 3)", goal_cases)
  case 1
  then show ?case by simp
next
  case (2 E fm cvs cached items n)
  then show ?case by simp
next
  case (3 E fm cvs cached items n)
  then show ?case by simp
next
  case (4 E fm cvs cached items n)
  then show ?case by simp
next
  case (5 E fm cvs cached d n)
  then show ?case by simp
next
  case (6 E fm cvs cached s n)
  then show ?case using length_strip [of s] by simp
next
  case (7 E fm cvs cached item items n)
  then show ?case by simp
next
  case (8 E fm cvs cached item items n x xa y)
  then show ?case using vsize_pos [of item] by simp
next
  case (9 E fm cvs cached key val d parsed_content n)
  then show ?case by simp
next
  case (10 E fm cvs cached key val d parsed_content n x xa y)
  then show ?case using vsize_pos [of key] by simp
next
  case (11 E fm cvs cached key val d parsed_content n x xa y xb xc ya)
  then show ?case using vsize_pos [of key] by simp
next
  case (12 E fm cvs cached raw n)
  then show ?case using matches_weight_findall [of raw] by simp
next
  case (13 E fm cvs raw func_match func_match_list match_start_position working args_mapping n
      x x2 xa xb y)
  then show ?case
    using parse_function_params_size [of E "snd func_match" xb y]
    by (simp add: matches_weight_def)
next
  case (14 E fm cvs raw func_match func_match_list match_start_position working args_mapping n
      x x2 xa xb y xc xd ya)
  then show ?case by (simp add: matches_weight_def)
next
  case (15 E fm cvs name args kwargs n x)
  then show ?case by simp
next
  case (16 E fm cvs name args kwargs n x xa xb y)
  then show ?case by simp
qed

section \<open>Evaluation of lazy values\<close>

text \<open>
  The state that evaluation reads and writes: the \<^verbatim>\<open>cache_key\<close> field of every
  \<^verbatim>\<open>LazyFunction\<close> object, by object identity (\<^verbatim>\<open>None\<close> from the constructor on), the
  module-level dict \<^verbatim>\<open>cached_functions_mapping\<close>, and the world that called functions
  act on. A cache key is the triple built by \<^verbatim>\<open>__prepare_cache_key\<close>; the dict is
  indexed by \<open>cache_key option\<close> because Python accepts \<^verbatim>\<open>None\<close> as a key too.
\<close>

type_synonym cache_key = "string \<times> string \<times> string"

record 'w state =
  cache_keys :: "nat \<Rightarrow> cache_key option"
  cached_functions_mapping :: "cache_key option \<Rightarrow> pyval option"
  world :: 'w

text \<open>\<^verbatim>\<open>get_mapping_variable\<close> (lines 264 to 281).\<close>

definition get_mapping_variable :: "string \<Rightarrow> (string \<times> pyval) list \<Rightarrow> error + pyval" where
  "get_mapping_variable variable_name variables_mapping =
     (case map_of variables_mapping variable_name of
        Some v \<Rightarrow> Inr v
      | None \<Rightarrow> Inl (VariableNotFound (variable_name @ '' is not found.'')))"

text \<open>
  \<^verbatim>\<open>template.format(*args)\<close>, read from left to right: \<^verbatim>\<open>{{\<close> and \<^verbatim>\<open>}}\<close> are escapes
  for one brace, \<^verbatim>\<open>{}\<close> takes the next argument (\<^verbatim>\<open>IndexError\<close> when there is none
  left), a lone brace is a \<^verbatim>\<open>ValueError\<close>. When the scan meets any other replacement
  field the result is whatever Python gives for the whole template, \<open>format_other\<close>.
\<close>

fun format_loop :: "'w env \<Rightarrow> string \<Rightarrow> pyval list \<Rightarrow> string \<Rightarrow> pyval list \<Rightarrow> error + string" where
  "format_loop E template all_args [] args = Inr []"
| "format_loop E template all_args [c] args =
     (if c = CHR ''{'' \<or> c = CHR ''}'' then Inl ValueError else Inr [c])"
| "format_loop E template all_args (c1 # c2 # t) args =
     (if c1 = CHR ''{'' \<and> c2 = CHR ''{'' then
        (case format_loop E template all_args t args of
           Inl e \<Rightarrow> Inl e
         | Inr out \<Rightarrow> Inr (CHR ''{'' # out))
      else if c1 = CHR ''}'' \<and> c2 = CHR ''}'' then
        (case format_loop E template all_args t args of
           Inl e \<Rightarrow> Inl e
         | Inr out \<Rightarrow> Inr (CHR ''}'' # out))
      else if c1 = CHR ''{'' \<and> c2 = CHR ''}'' then
        (case args of
           [] \<Rightarrow> Inl IndexError
         | a # rest \<Rightarrow>
             (case format_loop E template all_args t rest of
                Inl e \<Rightarrow> Inl e
              | Inr out \<Rightarrow> Inr (py_str E a @ out)))
      else if c1 = CHR ''{'' then format_other E template all_args
      else if c1 = CHR ''}'' then Inl ValueError
      else
        (case format_loop E template all_args (c2 # t) args of
           Inl e \<Rightarrow> Inl e
         | Inr out \<Rightarrow> Inr (c1 # out)))"

definition py_format :: "'w env \<Rightarrow> string \<Rightarrow> pyval list \<Rightarrow> error + string" where
  "py_format E template args = format_loop E template args template args"

lemma size_ls_args: "size_list size (ls_args l) < size l"
  by (cases l) simp

lemma size_lf_args: "size_list size (lf_args f) < size f"
  by (cases f) simp

lemma size_lf_kwargs: "size_list (size_prod size size) (lf_kwargs f) < size f"
  by (cases f) simp

text \<open>
  \<^verbatim>\<open>parse_lazy_data\<close> (lines 602 to 629), \<^verbatim>\<open>LazyString.to_value\<close> (lines 521 to 544)
  and \<^verbatim>\<open>LazyFunction.to_value\<close> (lines 436 to 444). \<open>parse_items\<close> is the list
  comprehension, \<open>parse_dict\<close> the loop of the dict branch, \<open>args_loop\<close> the loop of
  \<^verbatim>\<open>LazyString.to_value\<close> and \<open>function_arg_value\<close> the body of that loop for an
  argument that is a \<^verbatim>\<open>LazyFunction\<close> (lines 530 to 534). A variables mapping is a dict with string keys, which
  \<^verbatim>\<open>utils.ensure_mapping_format\<close> returns as it is. An exception leaves the state as it
  was when it was raised.
\<close>

function
  parse_lazy_data ::
    "'w env \<Rightarrow> pyval \<Rightarrow> (string \<times> pyval) list \<Rightarrow> 'w state \<Rightarrow> (error + pyval) \<times> 'w state"
  and parse_items ::
    "'w env \<Rightarrow> pyval list \<Rightarrow> (string \<times> pyval) list \<Rightarrow> 'w state
       \<Rightarrow> (error + pyval list) \<times> 'w state"
  and parse_dict ::
    "'w env \<Rightarrow> (pyval \<times> pyval) list \<Rightarrow> (pyval \<times> pyval) list \<Rightarrow> (string \<times> pyval) list
       \<Rightarrow> 'w state \<Rightarrow> (error + (pyval \<times> pyval) list) \<times> 'w state"
  and LazyString_to_value ::
    "'w env \<Rightarrow> lazy_string \<Rightarrow> (string \<times> pyval) list \<Rightarrow> 'w state
       \<Rightarrow> (error + pyval) \<times> 'w state"
  and args_loop ::
    "'w env \<Rightarrow> bool \<Rightarrow> lazy_arg list \<Rightarrow> (string \<times> pyval) list \<Rightarrow> 'w state
       \<Rightarrow> (error + pyval list) \<times> 'w state"
  and function_arg_value ::
    "'w env \<Rightarrow> bool \<Rightarrow> lazy_function \<Rightarrow> (string \<times> pyval) list \<Rightarrow> 'w state
       \<Rightarrow> (error + pyval) \<times> 'w state"
  and LazyFunction_to_value ::
    "'w env \<Rightarrow> lazy_function \<Rightarrow> (string \<times> pyval) list \<Rightarrow> 'w state
       \<Rightarrow> (error + pyval) \<times> 'w state"
where
  "parse_lazy_data E PNone vm st = (Inr PNone, st)"
| "parse_lazy_data E (PBool b) vm st = (Inr (PBool b), st)"
| "parse_lazy_data E (PInt i) vm st = (Inr (PInt i), st)"
| "parse_lazy_data E (PObj x) vm st = (Inr (PObj x), st)"
| "parse_lazy_data E (PLazy l) vm st = LazyString_to_value E l vm st"
| "parse_lazy_data E (PList items) vm st =
     (case parse_items E items vm st of
        (Inl e, st') \<Rightarrow> (Inl e, st')
      | (Inr xs, st') \<Rightarrow> (Inr (PList xs), st'))"
| "parse_lazy_data E (PSet items) vm st =
     (case parse_items E items vm st of
        (Inl e, st') \<Rightarrow> (Inl e, st')
      | (Inr xs, st') \<Rightarrow> (Inr (PList xs), st'))"
| "parse_lazy_data E (PTuple items) vm st =
     (case parse_items E items vm st of
        (Inl e, st') \<Rightarrow> (Inl e, st')
      | (Inr xs, st') \<Rightarrow> (Inr (PList xs), st'))"
| "parse_lazy_data E (PDict d) vm st =
     (case parse_dict E d [] vm st of
        (Inl e, st') \<Rightarrow> (Inl e, st')
      | (Inr parsed_content, st') \<Rightarrow> (Inr (PDict parsed_content), st'))"
| "parse_lazy_data E (PStr s) vm st = (Inr (PStr s), st)"
| "parse_items E [] vm st = (Inr [], st)"
| "parse_items E (item # items) vm st =
     (case parse_lazy_data E item vm st of
        (Inl e, st1) \<Rightarrow> (Inl e, st1)
      | (Inr x, st1) \<Rightarrow>
          (case parse_items E items vm st1 of
             (Inl e, st2) \<Rightarrow> (Inl e, st2)
           | (Inr xs, st2) \<Rightarrow> (Inr (x # xs), st2)))"
| "parse_dict E [] parsed_content vm st = (Inr parsed_content, st)"
| "parse_dict E ((key, val) # d) parsed_content vm st =
     (case parse_lazy_data E key vm st of
        (Inl e, st1) \<Rightarrow> (Inl e, st1)
      | (Inr parsed_key, st1) \<Rightarrow>
          (case parse_lazy_data E val vm st1 of
             (Inl e, st2) \<Rightarrow> (Inl e, st2)
           | (Inr parsed_value, st2) \<Rightarrow>
               if \<not> hashable parsed_key then (Inl TypeError, st2)
               else parse_dict E d (pydict_set parsed_content parsed_key parsed_value) vm st2))"
| "LazyString_to_value E l vm st =
     (case args_loop E (ls_cached l) (ls_args l) vm st of
        (Inl e, st') \<Rightarrow> (Inl e, st')
      | (Inr args, st') \<Rightarrow>
          if ls_string l = ''{}'' then
            (case args of
               [] \<Rightarrow> (Inl IndexError, st')
             | a # rest \<Rightarrow> (Inr a, st'))
          else
            (case py_format E (ls_string l) args of
               Inl e \<Rightarrow> (Inl e, st')
             | Inr s \<Rightarrow> (Inr (PStr s), st')))"
| "args_loop E cached [] vm st = (Inr [], st)"
| "args_loop E cached (VarRef name # rest) vm st =
     (case get_mapping_variable name vm of
        Inl e \<Rightarrow> (Inl e, st)
      | Inr var_value \<Rightarrow>
          (case args_loop E cached rest vm st of
             (Inl e, st') \<Rightarrow> (Inl e, st')
           | (Inr args, st') \<Rightarrow> (Inr (var_value # args), st')))"
| "args_loop E cached (FuncRef f # rest) vm st =
     (case function_arg_value E cached f vm st of
        (Inl e, st1) \<Rightarrow> (Inl e, st1)
      | (Inr v, st1) \<Rightarrow>
          (case args_loop E cached rest vm st1 of
             (Inl e, st2) \<Rightarrow> (Inl e, st2)
           | (Inr args, st2) \<Rightarrow> (Inr (v # args), st2)))"
| "function_arg_value E cached f vm st =
     (if cached \<and> cache_keys st (lf_id f) \<noteq> None
         \<and> cached_functions_mapping st (cache_keys st (lf_id f)) \<noteq> None
      then
        (case cached_functions_mapping st (cache_keys st (lf_id f)) of
           None \<Rightarrow> (Inl KeyError, st)
         | Some v \<Rightarrow> (Inr v, st))
      else
        (case LazyFunction_to_value E f vm st of
           (Inl e, st1) \<Rightarrow> (Inl e, st1)
         | (Inr v, st1) \<Rightarrow>
             (Inr v, st1\<lparr>cached_functions_mapping :=
                          (cached_functions_mapping st1)(cache_keys st1 (lf_id f) \<mapsto> v)\<rparr>)))"
| "LazyFunction_to_value E f vm st =
     (case parse_items E (lf_args f) vm st of
        (Inl e, st1) \<Rightarrow> (Inl e, st1)
      | (Inr args, st1) \<Rightarrow>
          (case parse_dict E (lf_kwargs f) [] vm st1 of
             (Inl e, st2) \<Rightarrow> (Inl e, st2)
           | (Inr kwargs, st2) \<Rightarrow>
               (let st3 = st2\<lparr>cache_keys := (cache_keys st2)
                              (lf_id f \<mapsto> (func_name (lf_func f), py_repr E (PList args),
                                           py_repr E (PDict kwargs)))\<rparr>
                in case call E (lf_func f) args kwargs (world st3) of
                     (r, w) \<Rightarrow> (r, st3\<lparr>world := w\<rparr>))))"
  by pat_completeness auto
termination
  by (relation "measure (\<lambda>x. case x of
        Inl (Inl (E, content, vm, st)) \<Rightarrow> size content
      | Inl (Inr (Inl (E, items, vm, st))) \<Rightarrow> size_list size items
      | Inl (Inr (Inr (E, d, acc, vm, st))) \<Rightarrow> size_list (size_prod size size) d
      | Inr (Inl (Inl (E, l, vm, st))) \<Rightarrow> size l
      | Inr (Inl (Inr (E, cached, args, vm, st))) \<Rightarrow> size_list size args
      | Inr (Inr (Inl (E, cached, f, vm, st))) \<Rightarrow> Suc (size f)
      | Inr (Inr (Inr (E, f, vm, st))) \<Rightarrow> size f)")
    (auto simp: less_Suc_eq_le size_ls_args size_lf_args size_lf_kwargs)

section \<open>Resolution of a variables mapping\<close>

text \<open>\<^verbatim>\<open>extract_variables\<close> (lines 648 to 666); of a dict only the values are searched.\<close>

function extract_variables :: "pyval \<Rightarrow> string set"
  and extract_variables_items :: "pyval list \<Rightarrow> string set"
  and extract_variables_dict :: "(pyval \<times> pyval) list \<Rightarrow> string set" where
  "extract_variables (PList items) = extract_variables_items items"
| "extract_variables (PSet items) = extract_variables_items items"
| "extract_variables (PTuple items) = extract_variables_items items"
| "extract_variables (PDict d) = extract_variables_dict d"
| "extract_variables (PLazy l) = set (regex_findall_variables (raw_string l))"
| "extract_variables PNone = {}"
| "extract_variables (PBool b) = {}"
| "extract_variables (PInt i) = {}"
| "extract_variables (PObj x) = {}"
| "extract_variables (PStr s) = {}"
| "extract_variables_items [] = {}"
| "extract_variables_items (item # items) =
     extract_variables item \<union> extract_variables_items items"
| "extract_variables_dict [] = {}"
| "extract_variables_dict ((key, val) # d) = extract_variables val \<union> extract_variables_dict d"
  by pat_completeness auto
termination
  by (relation "measure (\<lambda>x. case x of
        Inl v \<Rightarrow> size v
      | Inr (Inl xs) \<Rightarrow> size_list size xs
      | Inr (Inr d) \<Rightarrow> size_list (size_prod size size) d)") auto

text \<open>
  \<^verbatim>\<open>parse_variables_mapping\<close> (lines 699 to 734). \<open>variables_for_loop\<close> is one run of
  the \<^verbatim>\<open>for\<close> loop over the entries of the mapping, in the order of the dict;
  \<open>variables_while_loop\<close> is the \<^verbatim>\<open>while\<close> loop around it, which ends when the parsed
  mapping has as many entries as the input. The result \<open>None\<close> of the \<^verbatim>\<open>while\<close> loop
  means that it never ends. The name bound by the list comprehension of line 727 is
  local to it, as in Python 3.
\<close>

fun variables_for_loop ::
  "'w env \<Rightarrow> bool \<Rightarrow> (string \<times> pyval) list \<Rightarrow> (string \<times> pyval) list \<Rightarrow> 'w state
     \<Rightarrow> (error + (string \<times> pyval) list) \<times> 'w state" where
  "variables_for_loop E ignore [] parsed_variables_mapping st =
     (Inr parsed_variables_mapping, st)"
| "variables_for_loop E ignore ((var_name, val) # entries) parsed_variables_mapping st =
     (if dict_has parsed_variables_mapping var_name then
        variables_for_loop E ignore entries parsed_variables_mapping st
      else
        (let variables = extract_variables val in
         if var_name \<in> variables then
           (if ignore then
              variables_for_loop E ignore entries
                (dict_set parsed_variables_mapping var_name val) st
            else (Inl (VariableNotFound var_name), st))
         else if variables \<noteq> {}
                 \<and> (\<exists>v \<in> variables. \<not> dict_has parsed_variables_mapping v) then
           variables_for_loop E ignore entries parsed_variables_mapping st
         else
           (case parse_lazy_data E val parsed_variables_mapping st of
              (Inl e, st') \<Rightarrow> (Inl e, st')
            | (Inr parsed_value, st') \<Rightarrow>
                variables_for_loop E ignore entries
                  (dict_set parsed_variables_mapping var_name parsed_value) st')))"

partial_function (option) variables_while_loop ::
  "'w env \<Rightarrow> bool \<Rightarrow> (string \<times> pyval) list \<Rightarrow> (string \<times> pyval) list \<Rightarrow> 'w state
     \<Rightarrow> ((error + (string \<times> pyval) list) \<times> 'w state) option" where
  "variables_while_loop E ignore variables_mapping parsed_variables_mapping st =
     (if length parsed_variables_mapping \<noteq> length variables_mapping then
        (case variables_for_loop E ignore variables_mapping parsed_variables_mapping st of
           (Inl e, st') \<Rightarrow> Some (Inl e, st')
         | (Inr parsed', st') \<Rightarrow> variables_while_loop E ignore variables_mapping parsed' st')
      else Some (Inr parsed_variables_mapping, st))"

definition parse_variables_mapping ::
  "'w env \<Rightarrow> (string \<times> pyval) list \<Rightarrow> bool \<Rightarrow> 'w state
     \<Rightarrow> ((error + (string \<times> pyval) list) \<times> 'w state) option" where
  "parse_variables_mapping E variables_mapping ignore st =
     variables_while_loop E ignore variables_mapping [] st"

section \<open>A sample environment\<close>

text \<open>
  A small concrete environment, used to run the definitions on concrete inputs. Its
  \<open>repr\<close> is Python's on the values that occur below (integers, booleans, \<^verbatim>\<open>None\<close>,
  strings without quotes or escapes, lists and dicts of these; a lazy string prints as
  \<^verbatim>\<open>LazyString.__repr__\<close> says, an opaque object as its tag), and \<open>str\<close> differs from
  \<open>repr\<close> on strings only. Its literals are the decimal integers, \<^verbatim>\<open>True\<close>, \<^verbatim>\<open>False\<close>
  and \<^verbatim>\<open>None\<close>. Of the names that \<^verbatim>\<open>eval\<close> can see, it knows \<^verbatim>\<open>os\<close>, the module that
  parser.py imports in line 4 (not callable), and the built-in \<^verbatim>\<open>len\<close>. It registers two
  user functions: \<open>add\<close>, which adds two integers, and \<open>rand\<close>, which returns a new
  number at every call (the world is the count of calls made so far).
\<close>

function decimal :: "nat \<Rightarrow> string" where
  "decimal n =
     (if n < 10 then [''0123456789'' ! n]
      else decimal (n div 10) @ [''0123456789'' ! (n mod 10)])"
  by pat_completeness auto
termination
  by (relation "measure id") auto

declare decimal.simps [simp del]

definition int_repr :: "int \<Rightarrow> string" where
  "int_repr i = (if i < 0 then CHR ''-'' # decimal (nat (- i)) else decimal (nat i))"

function sample_repr :: "pyval \<Rightarrow> string"
  and sample_repr_items :: "pyval list \<Rightarrow> string"
  and sample_repr_dict :: "(pyval \<times> pyval) list \<Rightarrow> string" where
  "sample_repr PNone = ''None''"
| "sample_repr (PBool b) = (if b then ''True'' else ''False'')"
| "sample_repr (PInt i) = int_repr i"
| "sample_repr (PObj x) = x"
| "sample_repr (PStr s) = [CHR 39] @ s @ [CHR 39]"
| "sample_repr (PList xs) = ''['' @ sample_repr_items xs @ '']''"
| "sample_repr (PTuple xs) =
     ''('' @ sample_repr_items xs @ (if length xs = 1 then '','' else []) @ '')''"
| "sample_repr (PSet xs) = (if xs = [] then ''set()'' else ''{'' @ sample_repr_items xs @ ''}'')"
| "sample_repr (PDict d) = ''{'' @ sample_repr_dict d @ ''}''"
| "sample_repr (PLazy l) = ''LazyString('' @ raw_string l @ '')''"
| "sample_repr_items [] = []"
| "sample_repr_items (x # xs) =
     sample_repr x @ (if xs = [] then [] else '', '' @ sample_repr_items xs)"
| "sample_repr_dict [] = []"
| "sample_repr_dict ((k, v) # d) =
     sample_repr k @ '': '' @ sample_repr v
       @ (if d = [] then [] else '', '' @ sample_repr_dict d)"
  by pat_completeness auto
termination
  by (relation "measure (\<lambda>x. case x of
        Inl v \<Rightarrow> size v
      | Inr (Inl xs) \<Rightarrow> size_list size xs
      | Inr (Inr d) \<Rightarrow> size_list (size_prod size size) d)") auto

definition sample_str :: "pyval \<Rightarrow> string" where
  "sample_str v = (case v of PStr s \<Rightarrow> s | _ \<Rightarrow> sample_repr v)"

definition is_digit :: "char \<Rightarrow> bool" where
  "is_digit c = (let n = (of_char c :: nat) in 48 \<le> n \<and> n \<le> 57)"

definition sample_literal_eval :: "string \<Rightarrow> literal option" where
  "sample_literal_eval s =
     (if s = ''True'' then Some (LitBool True)
      else if s = ''False'' then Some (LitBool False)
      else if s = ''None'' then Some LitNone
      else if s \<noteq> [] \<and> list_all is_digit s \<and> (length s = 1 \<or> hd s \<noteq> CHR ''0'')
      then Some (LitInt (int (foldl (\<lambda>a c. 10 * a + (of_char c - 48)) 0 s)))
      else None)"

definition sample_call ::
  "callable \<Rightarrow> pyval list \<Rightarrow> (pyval \<times> pyval) list \<Rightarrow> nat \<Rightarrow> (error + pyval) \<times> nat" where
  "sample_call f args kwargs w =
     (if func_name f = ''add'' then
        (case (args, kwargs) of
           ([PInt a, PInt b], []) \<Rightarrow> (Inr (PInt (a + b)), Suc w)
         | _ \<Rightarrow> (Inl TypeError, Suc w))
      else if func_name f = ''rand'' then (Inr (PInt (int w)), Suc w)
      else (Inl (Raised ''not implemented''), Suc w))"

definition sample_env :: "nat env" where
  "sample_env =
     \<lparr> builtin_functions = Map.empty,
       host_eval = (\<lambda>name. if name = ''os'' then EvalNotCallable
                           else if name = ''len'' then EvalCallable (Function ''len'' 2)
                           else EvalNameOrTypeError),
       literal_eval = sample_literal_eval,
       py_str = sample_str,
       py_repr = sample_repr,
       format_other = (\<lambda>template args. Inl ValueError),
       call = sample_call \<rparr>"

definition sample_functions :: "string \<Rightarrow> callable option" where
  "sample_functions = [''add'' \<mapsto> Function ''add'' 0, ''rand'' \<mapsto> Function ''rand'' 1]"

definition initial_state :: "nat state" where
  "initial_state = \<lparr> cache_keys = (\<lambda>i. None), cached_functions_mapping = (\<lambda>k. None), world = 0 \<rparr>"

section \<open>The lazy objects inside a value\<close>


text \<open>
  Two states agree on the \<^verbatim>\<open>cache_key\<close> field of every \<^verbatim>\<open>LazyFunction\<close> object outside
  a set of identities.
\<close>

definition same_keys_outside :: "nat set \<Rightarrow> 'w state \<Rightarrow> 'w state \<Rightarrow> bool" where
  "same_keys_outside ids st st' = (\<forall>i. i \<notin> ids \<longrightarrow> cache_keys st' i = cache_keys st i)"

section \<open>Templates without braces in their literal text\<close>




section \<open>The variable references inside a value\<close>

text \<open>
  The names that evaluation will look up in the variables mapping: the variable slots
  of every lazy string that a value holds, those inside the arguments of its lazy
  functions included.
\<close>

function lazy_variables :: "pyval \<Rightarrow> string set"
  and lazy_variables_items :: "pyval list \<Rightarrow> string set"
  and lazy_variables_dict :: "(pyval \<times> pyval) list \<Rightarrow> string set"
  and lazy_variables_string :: "lazy_string \<Rightarrow> string set"
  and lazy_variables_args :: "lazy_arg list \<Rightarrow> string set"
  and lazy_variables_function :: "lazy_function \<Rightarrow> string set" where
  "lazy_variables (PList items) = lazy_variables_items items"
| "lazy_variables (PSet items) = lazy_variables_items items"
| "lazy_variables (PTuple items) = lazy_variables_items items"
| "lazy_variables (PDict d) = lazy_variables_dict d"
| "lazy_variables (PLazy l) = lazy_variables_string l"
| "lazy_variables PNone = {}"
| "lazy_variables (PBool b) = {}"
| "lazy_variables (PInt i) = {}"
| "lazy_variables (PObj x) = {}"
| "lazy_variables (PStr s) = {}"
| "lazy_variables_items [] = {}"
| "lazy_variables_items (item # items) = lazy_variables item \<union> lazy_variables_items items"
| "lazy_variables_dict [] = {}"
| "lazy_variables_dict ((key, val) # d) =
     lazy_variables key \<union> lazy_variables val \<union> lazy_variables_dict d"
| "lazy_variables_string l = lazy_variables_args (ls_args l)"
| "lazy_variables_args [] = {}"
| "lazy_variables_args (VarRef name # rest) = insert name (lazy_variables_args rest)"
| "lazy_variables_args (FuncRef f # rest) =
     lazy_variables_function f \<union> lazy_variables_args rest"
| "lazy_variables_function f =
     lazy_variables_items (lf_args f) \<union> lazy_variables_dict (lf_kwargs f)"
  by pat_completeness auto
termination
  by (relation "measure (\<lambda>x. case x of
        Inl (Inl content) \<Rightarrow> size content
      | Inl (Inr (Inl items)) \<Rightarrow> size_list size items
      | Inl (Inr (Inr d)) \<Rightarrow> size_list (size_prod size size) d
      | Inr (Inl l) \<Rightarrow> size l
      | Inr (Inr (Inl args)) \<Rightarrow> size_list size args
      | Inr (Inr (Inr f)) \<Rightarrow> size f)")
    (auto simp: less_Suc_eq_le size_ls_args size_lf_args size_lf_kwargs)


section \<open>Entries of the cache of function results\<close>

text \<open>
  The \<^verbatim>\<open>LazyFunction\<close> object with a given identity has a cache key, and
  \<^verbatim>\<open>cached_functions_mapping\<close> has an entry under that key.
\<close>

definition cache_entry :: "'w state \<Rightarrow> nat \<Rightarrow> bool" where
  "cache_entry st i =
     (case cache_keys st i of
        None \<Rightarrow> False
      | Some k \<Rightarrow> cached_functions_mapping st (Some k) \<noteq> None)"

section \<open>The arguments of a function call\<close>



section \<open>Properties of the validator normalization\<close>

lemma dict_has_map_of: "dict_has d k \<Longrightarrow> \<exists>v. map_of d k = Some v"
  unfolding dict_has_def by (induction d) auto

lemma two_entries_Some: "two_entries w = Some (a, b) \<longleftrightarrow> w = PList [a, b]"
  by (cases w) (auto simp: two_entries_def split: list.splits)

lemma parse_validator_single:
  "parse_validator (PDict [(k, w)]) =
     (case two_entries w of None \<Rightarrow> Inl ParamsError
      | Some (a, b) \<Rightarrow> Inr (validator_dict a b k))"
  by (simp add: parse_validator_def dict_has_def)

lemma parse_validator_other:
  "\<not> (dict_has d (PStr ''check'') \<and> length d > 1) \<Longrightarrow> length d \<noteq> 1 \<Longrightarrow>
     parse_validator (PDict d) = Inl ParamsError"
  by (auto simp add: parse_validator_def)

lemma parse_validator_format1:
  "dict_has d (PStr ''check'') \<and> length d > 1 \<Longrightarrow>
     parse_validator (PDict d) =
       (if dict_has d (PStr ''expect'') then
          Inr (validator_dict (dict_get d (PStr ''check'') PNone)
                 (dict_get d (PStr ''expect'') PNone)
                 (dict_get d (PStr ''comparator'') (PStr ''eq'')))
        else if dict_has d (PStr ''expected'') then
          Inr (validator_dict (dict_get d (PStr ''check'') PNone)
                 (dict_get d (PStr ''expected'') PNone)
                 (dict_get d (PStr ''comparator'') (PStr ''eq'')))
        else Inl ParamsError)"
  by (simp add: parse_validator_def Let_def)

lemma parse_validator_error:
  assumes "parse_validator v = Inl err" shows "err = ParamsError"
proof (cases v)
  case (PDict d)
  show ?thesis
  proof (cases "dict_has d (PStr ''check'') \<and> length d > 1")
    case True
    with assms PDict show ?thesis
      by (simp add: parse_validator_format1 split: if_splits)
  next
    case False
    show ?thesis
    proof (cases "length d = 1")
      case True
      then obtain k w where "d = [(k, w)]" by (cases d) auto
      with assms PDict show ?thesis
        by (simp add: parse_validator_single split: option.splits prod.splits)
    next
      case f2: False
      with False assms PDict show ?thesis
        by (simp add: parse_validator_other)
    qed
  qed
qed (use assms in \<open>simp_all add: parse_validator_def\<close>)

lemma parse_validator_Inr_form:
  assumes "parse_validator v = Inr r"
  shows "\<exists>c e cmp. r = validator_dict c e cmp"
proof (cases v)
  case (PDict d)
  show ?thesis
  proof (cases "dict_has d (PStr ''check'') \<and> length d > 1")
    case True
    with assms PDict show ?thesis
      by (auto simp add: parse_validator_format1 split: if_splits)
  next
    case False
    show ?thesis
    proof (cases "length d = 1")
      case True
      then obtain k w where "d = [(k, w)]" by (cases d) auto
      with assms PDict show ?thesis
        by (auto simp add: parse_validator_single split: option.splits prod.splits)
    next
      case f2: False
      with False assms PDict show ?thesis
        by (simp add: parse_validator_other)
    qed
  qed
qed (use assms in \<open>simp_all add: parse_validator_def\<close>)

lemma parse_validator_Inr_cases:
  assumes "parse_validator v = Inr r"
  shows "spec_legacy v \<or> (\<exists>op x e. v = PDict [(op, PList [x, e])])"
proof (cases v)
  case (PDict d)
  show ?thesis
  proof (cases "dict_has d (PStr ''check'') \<and> length d > 1")
    case True
    with assms PDict show ?thesis
      by (auto simp: parse_validator_format1 spec_legacy_def dict_has_def
               split: if_splits)
  next
    case False
    show ?thesis
    proof (cases "length d = 1")
      case True
      then obtain k w where "d = [(k, w)]" by (cases d) auto
      with assms PDict show ?thesis
        by (auto simp add: parse_validator_single two_entries_Some
                 split: option.splits prod.splits)
    next
      case f2: False
      with False assms PDict show ?thesis
        by (simp add: parse_validator_other)
    qed
  qed
qed (use assms in \<open>simp_all add: parse_validator_def\<close>)

lemma parse_validator_normal:
  "parse_validator (validator_dict c e cmp) = Inr (validator_dict c e cmp)"
  by (simp add: parse_validator_def validator_dict_def dict_has_def dict_get_def)

lemma dict_get_Some: "map_of d k = Some v \<Longrightarrow> dict_get d k dflt = v"
  by (simp add: dict_get_def)

lemma dict_has_iff: "dict_has d k \<longleftrightarrow> map_of d k \<noteq> None"
  by (simp add: dict_has_def map_of_eq_None_iff)

lemma parse_validator_legacy:
  assumes "spec_legacy v"
  shows "parse_validator v = Inr (spec_legacy_result v)"
proof -
  from assms obtain d where v: "v = PDict d"
    by (cases v) (simp_all add: spec_legacy_def)
  from assms have chk: "dict_has d (PStr ''check'')" and len: "1 < length d"
    and ex: "dict_has d (PStr ''expect'') \<or> dict_has d (PStr ''expected'')"
    unfolding v spec_legacy_def dict_has_def by simp_all
  from dict_has_map_of [OF chk] obtain c where c: "map_of d (PStr ''check'') = Some c" ..
  have cmp: "dict_get d (PStr ''comparator'') (PStr ''eq'') =
        (case map_of d (PStr ''comparator'') of Some c \<Rightarrow> c | None \<Rightarrow> PStr ''eq'')"
    by (simp add: dict_get_def)
  have f1: "parse_validator (PDict d) =
       (if dict_has d (PStr ''expect'') then
          Inr (validator_dict (dict_get d (PStr ''check'') PNone)
                 (dict_get d (PStr ''expect'') PNone)
                 (dict_get d (PStr ''comparator'') (PStr ''eq'')))
        else if dict_has d (PStr ''expected'') then
          Inr (validator_dict (dict_get d (PStr ''check'') PNone)
                 (dict_get d (PStr ''expected'') PNone)
                 (dict_get d (PStr ''comparator'') (PStr ''eq'')))
        else Inl ParamsError)"
    using chk len by (intro parse_validator_format1) simp
  show ?thesis
  proof (cases "dict_has d (PStr ''expect'')")
    case True
    from dict_has_map_of [OF True] obtain e where e: "map_of d (PStr ''expect'') = Some e" ..
    have "parse_validator (PDict d) = Inr (validator_dict c e
            (dict_get d (PStr ''comparator'') (PStr ''eq'')))"
      unfolding f1 using True by (simp add: dict_get_Some [OF c] dict_get_Some [OF e])
    moreover have "spec_legacy_result (PDict d) = validator_dict c e
            (dict_get d (PStr ''comparator'') (PStr ''eq''))"
      unfolding cmp by (simp add: spec_legacy_result_def validator_dict_def c e)
    ultimately show ?thesis unfolding v by simp
  next
    case False
    with ex have ed: "dict_has d (PStr ''expected'')" by simp
    from dict_has_map_of [OF ed] obtain e where e: "map_of d (PStr ''expected'') = Some e" ..
    from False have n: "map_of d (PStr ''expect'') = None"
      by (simp add: dict_has_iff)
    have "parse_validator (PDict d) = Inr (validator_dict c e
            (dict_get d (PStr ''comparator'') (PStr ''eq'')))"
      unfolding f1 using False ed by (simp add: dict_get_Some [OF c] dict_get_Some [OF e])
    moreover have "spec_legacy_result (PDict d) = validator_dict c e
            (dict_get d (PStr ''comparator'') (PStr ''eq''))"
      unfolding cmp by (simp add: spec_legacy_result_def validator_dict_def c e n)
    ultimately show ?thesis unfolding v by simp
  qed
qed


text \<open>
  Claim C6. \<^verbatim>\<open>parse_validator\<close> normalizes exactly the two shapes: a legacy dict
  (a \<open>check\<close> key, at least one other key, the expected value under \<open>expect\<close> or
  \<open>expected\<close>, the comparator defaulting to \<open>eq\<close>) and a compact dict whose sole key is
  the comparator, mapped to a list of exactly two entries. The result is the dict that
  holds the checked item under \<open>check\<close>, the expected value under \<open>expect\<close> and the
  comparator under \<open>comparator\<close>. Every other input, whether it is not a dict, a legacy
  dict without \<open>expect\<close> and \<open>expected\<close>, a single-key dict whose value is not a
  two-element list, or an empty dict, raises \<open>ParamsError\<close>.
\<close>

theorem parse_validator_two_shapes:
  "(spec_legacy v \<longrightarrow> parse_validator v = Inr (spec_legacy_result v)) \<and>
   (\<forall>op x e. v = PDict [(op, PList [x, e])] \<longrightarrow>
      parse_validator v
        = Inr (PDict [(PStr ''check'', x), (PStr ''expect'', e), (PStr ''comparator'', op)])) \<and>
   (\<not> spec_legacy v \<and> \<not> spec_compact v \<longrightarrow> parse_validator v = Inl ParamsError)"
proof (intro conjI impI allI)
  assume "spec_legacy v"
  then show "parse_validator v = Inr (spec_legacy_result v)"
    by (rule parse_validator_legacy)
next
  fix op x e
  assume "v = PDict [(op, PList [x, e])]"
  then show "parse_validator v
      = Inr (PDict [(PStr ''check'', x), (PStr ''expect'', e), (PStr ''comparator'', op)])"
    by (simp add: parse_validator_single two_entries_def validator_dict_def)
next
  assume other: "\<not> spec_legacy v \<and> \<not> spec_compact v"
  show "parse_validator v = Inl ParamsError"
  proof (cases "parse_validator v")
    case (Inl err)
    then show ?thesis using parse_validator_error [of v err] by simp
  next
    case (Inr r)
    from parse_validator_Inr_cases [OF Inr] have "spec_legacy v \<or> spec_compact v"
      unfolding spec_compact_def .
    with other show ?thesis by simp
  qed
qed

theorem parse_validator_two_shapes_witness:
  "parse_validator (PDict [(PStr ''check'', PStr ''status_code''),
                           (PStr ''comparator'', PStr ''lt''), (PStr ''expect'', PInt 201)])
     = Inr (PDict [(PStr ''check'', PStr ''status_code''), (PStr ''expect'', PInt 201),
                   (PStr ''comparator'', PStr ''lt'')]) \<and>
   parse_validator (PDict [(PStr ''check'', PStr ''status_code''),
                           (PStr ''expected'', PInt 201)])
     = Inr (PDict [(PStr ''check'', PStr ''status_code''), (PStr ''expect'', PInt 201),
                   (PStr ''comparator'', PStr ''eq'')]) \<and>
   parse_validator (PDict [(PStr ''eq'', PList [PStr ''status_code'', PInt 201])])
     = Inr (PDict [(PStr ''check'', PStr ''status_code''), (PStr ''expect'', PInt 201),
                   (PStr ''comparator'', PStr ''eq'')]) \<and>
   parse_validator (PDict [(PStr ''eq'', PList [PStr ''status_code''])]) = Inl ParamsError \<and>
   parse_validator (PDict [(PStr ''check'', PStr ''status_code''),
                           (PStr ''comparator'', PStr ''eq'')]) = Inl ParamsError \<and>
   parse_validator (PDict []) = Inl ParamsError \<and>
   parse_validator (PStr ''eq'') = Inl ParamsError"
proof -
  let ?a = "PDict [(PStr ''check'', PStr ''status_code''),
                   (PStr ''comparator'', PStr ''lt''), (PStr ''expect'', PInt 201)]"
  let ?b = "PDict [(PStr ''check'', PStr ''status_code''), (PStr ''expected'', PInt 201)]"
  let ?c = "PDict [(PStr ''eq'', PList [PStr ''status_code'', PInt 201])]"
  let ?d = "PDict [(PStr ''eq'', PList [PStr ''status_code''])]"
  let ?e = "PDict [(PStr ''check'', PStr ''status_code''), (PStr ''comparator'', PStr ''eq'')]"
  have a: "spec_legacy ?a" and b: "spec_legacy ?b"
    by (simp_all add: spec_legacy_def)
  have ra: "spec_legacy_result ?a
      = PDict [(PStr ''check'', PStr ''status_code''), (PStr ''expect'', PInt 201),
               (PStr ''comparator'', PStr ''lt'')]"
    and rb: "spec_legacy_result ?b
      = PDict [(PStr ''check'', PStr ''status_code''), (PStr ''expect'', PInt 201),
               (PStr ''comparator'', PStr ''eq'')]"
    by (simp_all add: spec_legacy_result_def)
  have d: "\<not> spec_legacy ?d \<and> \<not> spec_compact ?d"
    and e: "\<not> spec_legacy ?e \<and> \<not> spec_compact ?e"
    and f: "\<not> spec_legacy (PDict []) \<and> \<not> spec_compact (PDict [])"
    and g: "\<not> spec_legacy (PStr ''eq'') \<and> \<not> spec_compact (PStr ''eq'')"
    by (simp_all add: spec_legacy_def spec_compact_def)
  show ?thesis
    using parse_validator_two_shapes [of ?a] parse_validator_two_shapes [of ?b]
      parse_validator_two_shapes [of ?c] parse_validator_two_shapes [of ?d]
      parse_validator_two_shapes [of ?e] parse_validator_two_shapes [of "PDict []"]
      parse_validator_two_shapes [of "PStr ''eq''"] a b ra rb d e f g
    by simp
qed

text \<open>
  Claim C7. \<^verbatim>\<open>parse_validator\<close> is idempotent: on every validator on which it
  succeeds, applying it to its own result gives that result again.
\<close>

theorem parse_validator_idempotent:
  assumes "parse_validator v = Inr r"
  shows "parse_validator r = Inr r"
proof -
  from parse_validator_Inr_form [OF assms] obtain c e cmp
    where "r = validator_dict c e cmp" by (elim exE)
  then show ?thesis by (simp add: parse_validator_normal)
qed

theorem parse_validator_idempotent_witness:
  "parse_validator (PDict [(PStr ''eq'', PList [PStr ''status_code'', PInt 201])])
     = Inr (validator_dict (PStr ''status_code'') (PInt 201) (PStr ''eq'')) \<and>
   parse_validator (validator_dict (PStr ''status_code'') (PInt 201) (PStr ''eq''))
     = Inr (validator_dict (PStr ''status_code'') (PInt 201) (PStr ''eq''))"
proof -
  have h: "parse_validator (PDict [(PStr ''eq'', PList [PStr ''status_code'', PInt 201])])
             = Inr (validator_dict (PStr ''status_code'') (PInt 201) (PStr ''eq''))"
    by (simp add: parse_validator_single two_entries_def)
  show ?thesis using h parse_validator_idempotent [OF h] by simp
qed

section \<open>Properties of the function lookup\<close>

lemma get_mapping_function_user:
  "functions_mapping name = Some f \<Longrightarrow>
     get_mapping_function E name functions_mapping = Inr (Some f)"
  by (simp add: get_mapping_function_def)

lemma get_mapping_function_reserved:
  assumes "functions_mapping name = None"
  shows "name \<in> {''parameterize'', ''P''} \<Longrightarrow>
           get_mapping_function E name functions_mapping = Inr (Some LoadCsvFile)"
    and "name \<in> {''environ'', ''ENV''} \<Longrightarrow>
           get_mapping_function E name functions_mapping = Inr (Some GetOsEnviron)"
  using assms by (auto simp: get_mapping_function_def)

lemma get_mapping_function_None_iff:
  "get_mapping_function E name functions_mapping = Inr None \<longleftrightarrow>
     functions_mapping name = None \<and> name \<notin> {''parameterize'', ''P'', ''environ'', ''ENV''}
       \<and> builtin_functions E name = None \<and> host_eval E name = EvalNotCallable"
  by (auto simp: get_mapping_function_def split: option.splits eval_outcome.splits)

text \<open>
  Claim C8 says that \<^verbatim>\<open>get_mapping_function\<close> tries the user mapping, the reserved
  names, the built-in helpers and the host namespace in this order, and fails with
  \<open>FunctionNotFound\<close> for every name that none of them resolves to a callable, never
  returning silently. The code does not: for a name that \<^verbatim>\<open>eval\<close> resolves to an object
  that is not callable, such as \<^verbatim>\<open>os\<close> (the module imported by parser.py), it reaches
  its end and returns \<^verbatim>\<open>None\<close>.
\<close>

theorem get_mapping_function_returns_nothing:
  "get_mapping_function sample_env ''os'' Map.empty = Inr None"
  by (simp add: get_mapping_function_def sample_env_def)

section \<open>Properties of the template of a lazy string\<close>

text \<open>The number of placeholders \<^verbatim>\<open>{}\<close> in a template, counted from the left.\<close>

fun count_placeholders :: "string \<Rightarrow> nat" where
  "count_placeholders (c1 # c2 # t) =
     (if c1 = CHR ''{'' \<and> c2 = CHR ''}'' then Suc (count_placeholders t)
      else count_placeholders (c2 # t))"
| "count_placeholders t = 0"

text \<open>
  Claim C3 says that in every \<^verbatim>\<open>LazyString\<close> produced by preparation the number of
  placeholders of the template equals the number of argument slots, in the same order,
  also when a variable reference or a function call occurs more than once. The code
  does not achieve this: \<^verbatim>\<open>raw_string.index\<close> starts at the position of the previous
  find instead of behind it, so the second \<^verbatim>\<open>$a\<close> of \<^verbatim>\<open>$a$a\<close> is found at offset 0
  again and overwrites the slot of the first. The template has two placeholders and
  there is one slot.
\<close>

theorem LazyString_repeated_variable_loses_slot:
  "LazyString_init sample_env sample_functions {''a''} False ''$a$a'' 0
     = Inr (LazyString 0 ''$a$a'' ''{}{}'' [VarRef ''a''] False, 1)
   \<and> count_placeholders ''{}{}'' = 2 \<and> length [VarRef ''a''] = 1"
  by (simp add: match_variable_def match_function_def is_word_def str_index_def)

section \<open>Properties of the resolution of a variables mapping\<close>

text \<open>
  A run of the \<^verbatim>\<open>for\<close> loop that resolves nothing leaves the \<^verbatim>\<open>while\<close> loop where it was:
  the loop never ends.
\<close>

lemma variables_while_loop_stuck:
  assumes stuck: "variables_for_loop E ignore vm parsed st = (Inr parsed, st)"
    and len: "length parsed \<noteq> length vm"
  shows "variables_while_loop E ignore vm parsed st = None"
proof (cases "variables_while_loop E ignore vm parsed st")
  case None
  then show ?thesis .
next
  case (Some y)
  have "\<not> (E = E \<and> ignore = ignore \<and> vm = vm \<and> parsed = parsed \<and> st = st)"
  proof (rule variables_while_loop.raw_induct
      [where P = "\<lambda>E' ignore' vm' parsed' st' y.
          \<not> (E' = E \<and> ignore' = ignore \<and> vm' = vm \<and> parsed' = parsed \<and> st' = st)",
        OF _ Some])
    fix f :: "'a env \<Rightarrow> bool \<Rightarrow> (string \<times> pyval) list \<Rightarrow> (string \<times> pyval) list \<Rightarrow> 'a state
      \<Rightarrow> ((error + (string \<times> pyval) list) \<times> 'a state) option"
    fix E' ignore' vm' parsed' st' y
    assume IH: "\<And>E' ignore' vm' parsed' st' y. f E' ignore' vm' parsed' st' = Some y \<Longrightarrow>
      \<not> (E' = E \<and> ignore' = ignore \<and> vm' = vm \<and> parsed' = parsed \<and> st' = st)"
    assume step: "(if length parsed' \<noteq> length vm'
        then case variables_for_loop E' ignore' vm' parsed' st' of
               (Inl e, st'') \<Rightarrow> Some (Inl e, st'')
             | (Inr parsed'', st'') \<Rightarrow> f E' ignore' vm' parsed'' st''
        else Some (Inr parsed', st')) = Some y"
    show "\<not> (E' = E \<and> ignore' = ignore \<and> vm' = vm \<and> parsed' = parsed \<and> st' = st)"
    proof
      assume same: "E' = E \<and> ignore' = ignore \<and> vm' = vm \<and> parsed' = parsed \<and> st' = st"
      with step stuck len have "f E ignore vm parsed st = Some y" by simp
      from IH [OF this] show False by simp
    qed
  qed
  then show ?thesis by simp
qed

definition cyclic_mapping :: "(string \<times> pyval) list" where
  "cyclic_mapping =
     [(''a'', PLazy (LazyString 0 ''$b'' ''{}'' [VarRef ''b''] False)),
      (''b'', PLazy (LazyString 1 ''$a'' ''{}'' [VarRef ''a''] False))]"

lemma cyclic_mapping_prepared:
  "prepare_items sample_env sample_functions {''a'', ''b''} False [PStr ''$b'', PStr ''$a''] 0
     = Inr (map snd cyclic_mapping, 2)"
  by (simp add: cyclic_mapping_def is_variable_exist_def is_function_exist_def
        match_variable_def match_function_def is_word_def is_space_def strip_def
        str_index_def numeral_2_eq_2)

lemma variables_for_loop_cyclic:
  "variables_for_loop E ignore cyclic_mapping [] st = (Inr [], st)"
  by (simp add: cyclic_mapping_def dict_has_def match_variable_def is_word_def)

text \<open>
  Claim C2 says that \<^verbatim>\<open>parse_variables_mapping\<close> terminates on every mapping and, when
  no further entry can be resolved because of undefined names or an indirect cycle,
  returns the partial map. The code does not: the \<^verbatim>\<open>while\<close> loop has no test for
  progress, and on the mapping \<^verbatim>\<open>{a: "$b", b: "$a"}\<close> every run of the \<^verbatim>\<open>for\<close> loop
  skips both entries, so the loop never ends, whatever the environment, the \<^verbatim>\<open>ignore\<close>
  flag and the state.
\<close>

theorem parse_variables_mapping_cycle_never_returns:
  "parse_variables_mapping E cyclic_mapping ignore st = None"
  unfolding parse_variables_mapping_def
  by (rule variables_while_loop_stuck [OF variables_for_loop_cyclic])
     (simp add: cyclic_mapping_def)

subsection \<open>Entries that reference their own name\<close>

lemma dict_has_dict_set: "dict_has (dict_set d k v) k' \<longleftrightarrow> k' = k \<or> dict_has d k'"
  by (induction d k v rule: dict_set.induct) (auto simp: dict_has_def)

lemma map_of_dict_set: "map_of (dict_set d k v) k' = (if k' = k then Some v else map_of d k')"
  by (induction d k v rule: dict_set.induct) auto

lemma keys_dict_set: "fst ` set (dict_set d k v) = insert k (fst ` set d)"
  by (induction d k v rule: dict_set.induct) auto

lemma distinct_dict_set: "distinct (map fst d) \<Longrightarrow> distinct (map fst (dict_set d k v))"
  by (induction d k v rule: dict_set.induct) (auto simp: keys_dict_set)

lemma variables_for_loop_append:
  "variables_for_loop E ig (xs @ ys) p st =
     (case variables_for_loop E ig xs p st of
        (Inl e, st') \<Rightarrow> (Inl e, st')
      | (Inr p', st') \<Rightarrow> variables_for_loop E ig ys p' st')"
  by (induction E ig xs p st rule: variables_for_loop.induct)
     (auto simp: Let_def split: prod.splits sum.splits)

lemma variables_for_loop_keys:
  "variables_for_loop E ig xs p st = (Inr p', st') \<Longrightarrow>
     fst ` set p' \<subseteq> fst ` set p \<union> fst ` set xs \<and> fst ` set p \<subseteq> fst ` set p'
       \<and> (distinct (map fst p) \<longrightarrow> distinct (map fst p'))"
  by (induction E ig xs p st rule: variables_for_loop.induct)
     (auto simp: Let_def keys_dict_set distinct_dict_set split: prod.splits sum.splits if_splits)

definition self_kept :: "(string \<times> pyval) list \<Rightarrow> (string \<times> pyval) list \<Rightarrow> bool" where
  "self_kept vm p =
     (\<forall>(n, v) \<in> set vm. n \<in> extract_variables v \<longrightarrow> dict_has p n \<longrightarrow> map_of p n = Some v)"

lemma variables_for_loop_self_kept:
  assumes "distinct (map fst vm)"
  shows "set xs \<subseteq> set vm \<Longrightarrow> self_kept vm p \<Longrightarrow>
     variables_for_loop E True xs p st = (Inr p', st') \<Longrightarrow>
     self_kept vm p' \<and> (\<forall>(n, v) \<in> set xs. n \<in> extract_variables v \<longrightarrow> dict_has p' n)"
proof (induction E "True" xs p st rule: variables_for_loop.induct)
  case (1 E p st)
  then show ?case by simp
next
  case (2 E var_name val entries p st)
  from "2.prems" have mem: "(var_name, val) \<in> set vm" and sub: "set entries \<subseteq> set vm" by auto
  have uniq: "v = val" if "(var_name, v) \<in> set vm" for v
    using assms mem that by (meson eq_key_imp_eq_value)
  have mono: "dict_has q var_name" if "variables_for_loop E True entries p0 s0 = (Inr q, s1)"
    and "dict_has p0 var_name" for p0 s0 q s1
    using variables_for_loop_keys [OF that(1)] that(2) by (auto simp: dict_has_def)
  show ?case
  proof (cases "dict_has p var_name")
    case True
    with "2.prems" have run: "variables_for_loop E True entries p st = (Inr p', st')" by simp
    from "2.hyps"(1) [OF True sub "2.prems"(2) run] mono [OF run True]
    show ?thesis by auto
  next
    case False
    show ?thesis
    proof (cases "var_name \<in> extract_variables val")
      case self: True
      with False "2.prems" have run: "variables_for_loop E True entries (dict_set p var_name val) st
          = (Inr p', st')"
        by (simp add: Let_def)
      have kept: "self_kept vm (dict_set p var_name val)"
        using "2.prems"(2) uniq
        by (auto simp: self_kept_def dict_has_dict_set map_of_dict_set)
      from "2.hyps"(2) [OF False refl self _ sub kept run]
        mono [OF run, unfolded dict_has_dict_set]
      show ?thesis by auto
    next
      case noself: False
      show ?thesis
      proof (cases "extract_variables val \<noteq> {}
                      \<and> (\<exists>v \<in> extract_variables val. \<not> dict_has p v)")
        case True
        with False noself "2.prems" have run: "variables_for_loop E True entries p st = (Inr p', st')"
          by (simp add: Let_def)
        from "2.hyps"(3) [OF False refl noself True sub "2.prems"(2) run] noself
        show ?thesis by auto
      next
        case ready: False
        with False noself "2.prems" obtain pv s1 where
          ev: "parse_lazy_data E val p st = (Inr pv, s1)"
          and run: "variables_for_loop E True entries (dict_set p var_name pv) s1 = (Inr p', st')"
          by (auto simp: Let_def split: prod.splits sum.splits)
        have kept: "self_kept vm (dict_set p var_name pv)"
          using "2.prems"(2) uniq noself
          by (auto simp: self_kept_def dict_has_dict_set map_of_dict_set)
        from "2.hyps"(4) [OF False refl noself ready ev [symmetric] refl sub kept run] noself
        show ?thesis by auto
      qed
    qed
  qed
qed

lemma self_reference_raises:
  assumes vm: "vm = before @ (name, val) # after"
    and self: "name \<in> extract_variables val"
    and fresh: "name \<notin> fst ` set before"
    and run: "variables_for_loop E False before [] st = (Inr p, st')"
  shows "parse_variables_mapping E vm False st = Some (Inl (VariableNotFound name), st')"
proof -
  from variables_for_loop_keys [OF run] fresh have "\<not> dict_has p name"
    by (auto simp: dict_has_def)
  with self have "variables_for_loop E False ((name, val) # after) p st'
      = (Inl (VariableNotFound name), st')"
    by simp
  with run have "variables_for_loop E False vm [] st = (Inl (VariableNotFound name), st')"
    unfolding vm by (simp add: variables_for_loop_append)
  moreover have "length ([] :: (string \<times> pyval) list) \<noteq> length vm"
    unfolding vm by simp
  ultimately show ?thesis
    unfolding parse_variables_mapping_def
    by (subst variables_while_loop.simps) simp
qed

lemma self_reference_never_returns:
  assumes dist: "distinct (map fst vm)" and mem: "(name, val) \<in> set vm"
    and self: "name \<in> extract_variables val"
  shows "\<exists>e st'. parse_variables_mapping E vm False st = Some (Inl e, st')"
proof -
  from mem obtain before after where vm: "vm = before @ (name, val) # after"
    by (auto dest: split_list)
  from dist have fresh: "name \<notin> fst ` set before"
    unfolding vm by auto
  have len: "length ([] :: (string \<times> pyval) list) \<noteq> length vm"
    unfolding vm by simp
  obtain r s where run: "variables_for_loop E False before [] st = (r, s)"
    by (cases "variables_for_loop E False before [] st")
  show ?thesis
  proof (cases r)
    case (Inl e)
    with run have "variables_for_loop E False vm [] st = (Inl e, s)"
      unfolding vm by (simp add: variables_for_loop_append)
    with len have "parse_variables_mapping E vm False st = Some (Inl e, s)"
      unfolding parse_variables_mapping_def
      by (subst variables_while_loop.simps) simp
    then show ?thesis by blast
  next
    case (Inr p)
    with run self_reference_raises [OF vm self fresh, of E st p s] show ?thesis by blast
  qed
qed

lemma variables_while_loop_self_kept:
  assumes "variables_while_loop E ig vm p st = Some y"
  shows "ig \<longrightarrow> distinct (map fst vm) \<longrightarrow> self_kept vm p \<longrightarrow> fst ` set p \<subseteq> fst ` set vm
     \<longrightarrow> distinct (map fst p)
     \<longrightarrow> (\<forall>parsed st'. y = (Inr parsed, st') \<longrightarrow>
            self_kept vm parsed \<and> length parsed = length vm
            \<and> fst ` set parsed \<subseteq> fst ` set vm \<and> distinct (map fst parsed))"
proof (rule variables_while_loop.raw_induct
    [where P = "\<lambda>E ig vm p st y.
      ig \<longrightarrow> distinct (map fst vm) \<longrightarrow> self_kept vm p \<longrightarrow> fst ` set p \<subseteq> fst ` set vm
      \<longrightarrow> distinct (map fst p)
      \<longrightarrow> (\<forall>parsed st'. y = (Inr parsed, st') \<longrightarrow>
            self_kept vm parsed \<and> length parsed = length vm
            \<and> fst ` set parsed \<subseteq> fst ` set vm \<and> distinct (map fst parsed))", OF _ assms])
  fix f :: "'a env \<Rightarrow> bool \<Rightarrow> (string \<times> pyval) list \<Rightarrow> (string \<times> pyval) list \<Rightarrow> 'a state
      \<Rightarrow> ((error + (string \<times> pyval) list) \<times> 'a state) option"
  fix E ig vm p st y
  assume IH: "\<And>E ig vm p st y. f E ig vm p st = Some y \<Longrightarrow>
      ig \<longrightarrow> distinct (map fst vm) \<longrightarrow> self_kept vm p \<longrightarrow> fst ` set p \<subseteq> fst ` set vm
      \<longrightarrow> distinct (map fst p)
      \<longrightarrow> (\<forall>parsed st'. y = (Inr parsed, st') \<longrightarrow>
            self_kept vm parsed \<and> length parsed = length vm
            \<and> fst ` set parsed \<subseteq> fst ` set vm \<and> distinct (map fst parsed))"
  assume step: "(if length p \<noteq> length vm
        then case variables_for_loop E ig vm p st of
               (Inl e, st') \<Rightarrow> Some (Inl e, st')
             | (Inr parsed', st') \<Rightarrow> f E ig vm parsed' st'
        else Some (Inr p, st)) = Some y"
  show "ig \<longrightarrow> distinct (map fst vm) \<longrightarrow> self_kept vm p \<longrightarrow> fst ` set p \<subseteq> fst ` set vm
      \<longrightarrow> distinct (map fst p)
      \<longrightarrow> (\<forall>parsed st'. y = (Inr parsed, st') \<longrightarrow>
            self_kept vm parsed \<and> length parsed = length vm
            \<and> fst ` set parsed \<subseteq> fst ` set vm \<and> distinct (map fst parsed))"
  proof (intro impI allI)
    fix parsed st'
    assume ig: ig and dist: "distinct (map fst vm)" and kept: "self_kept vm p"
      and keys: "fst ` set p \<subseteq> fst ` set vm" and dp: "distinct (map fst p)"
      and y: "y = (Inr parsed, st')"
    show "self_kept vm parsed \<and> length parsed = length vm
            \<and> fst ` set parsed \<subseteq> fst ` set vm \<and> distinct (map fst parsed)"
    proof (cases "length p \<noteq> length vm")
      case False
      with step y kept keys dp show ?thesis by simp
    next
      case True
      obtain r s where run: "variables_for_loop E ig vm p st = (r, s)"
        by (cases "variables_for_loop E ig vm p st")
      show ?thesis
      proof (cases r)
        case (Inl e)
        with True step run y show ?thesis by simp
      next
        case (Inr p')
        with True step run have rec: "f E ig vm p' s = Some y" by simp
        from run Inr ig have run': "variables_for_loop E True vm p st = (Inr p', s)" by simp
        from variables_for_loop_self_kept [OF dist subset_refl kept run']
        have kept': "self_kept vm p'" by simp
        from variables_for_loop_keys [OF run']
        have k1: "fst ` set p' \<subseteq> fst ` set p \<union> fst ` set vm"
          and k2: "distinct (map fst p) \<longrightarrow> distinct (map fst p')"
          by simp_all
        from k1 keys have keys': "fst ` set p' \<subseteq> fst ` set vm" by blast
        from k2 dp have dp': "distinct (map fst p')" by simp
        from IH [OF rec] ig dist kept' keys' dp' y show ?thesis by blast
      qed
    qed
  qed
qed

lemma ignored_self_reference_kept:
  assumes ret: "parse_variables_mapping E vm True st = Some (Inr parsed, st')"
    and dist: "distinct (map fst vm)" and mem: "(name, val) \<in> set vm"
    and self: "name \<in> extract_variables val"
  shows "map_of parsed name = Some val"
proof -
  have "self_kept vm []" by (simp add: self_kept_def dict_has_def)
  with variables_while_loop_self_kept [OF ret [unfolded parse_variables_mapping_def]] dist
  have kept: "self_kept vm parsed" and len: "length parsed = length vm"
    and keys: "fst ` set parsed \<subseteq> fst ` set vm" and dp: "distinct (map fst parsed)"
    by auto
  have "card (fst ` set parsed) = length parsed"
    using distinct_card [OF dp] by simp
  moreover have "card (fst ` set vm) = length vm"
    using distinct_card [OF dist] by simp
  ultimately have "fst ` set parsed = fst ` set vm"
    using keys len by (intro card_subset_eq) auto
  with mem have "dict_has parsed name"
    by (force simp: dict_has_def)
  with kept mem self show ?thesis by (auto simp: self_kept_def)
qed

lemma ignored_self_reference_first_run:
  assumes run: "variables_for_loop E True vm [] st = (Inr p, st')"
    and dist: "distinct (map fst vm)" and mem: "(name, val) \<in> set vm"
    and self: "name \<in> extract_variables val"
  shows "map_of p name = Some val"
proof -
  have "self_kept vm []" by (simp add: self_kept_def dict_has_def)
  from variables_for_loop_self_kept [OF dist subset_refl this run] mem self
  show ?thesis by (auto simp: self_kept_def)
qed

definition failing_before_self :: "(string \<times> pyval) list" where
  "failing_before_self =
     [(''x'', PLazy (LazyString 0 ''${add(1)}'' ''{}''
                      [FuncRef (LazyFunction 1 (Function ''add'' 0) [PInt 1] [])] False)),
      (''token'', PLazy (LazyString 2 ''$token'' ''{}'' [VarRef ''token''] False))]"

definition two_self_references :: "(string \<times> pyval) list" where
  "two_self_references =
     [(''a'', PLazy (LazyString 0 ''$a'' ''{}'' [VarRef ''a''] False)),
      (''b'', PLazy (LazyString 1 ''$b'' ''{}'' [VarRef ''b''] False))]"

text \<open>
  Claim C5, as stated, fails: it says that for every mapping with an entry that
  references its own name \<^verbatim>\<open>parse_variables_mapping\<close> raises \<open>VariableNotFound\<close> naming
  that variable when \<^verbatim>\<open>ignore\<close> is false. In \<^verbatim>\<open>{x: "${add(1)}", token: "$token"}\<close> the
  entry \<open>token\<close> references itself, but the entry before it is evaluated first and its
  call raises \<^verbatim>\<open>TypeError\<close> (\<open>add\<close> takes two arguments), which is what the function
  raises. In \<^verbatim>\<open>{a: "$a", b: "$b"}\<close> the entry \<open>b\<close> references itself and the error names
  \<open>a\<close>.
\<close>

theorem self_reference_other_error_first:
  "''token'' \<in> extract_variables (PLazy (LazyString 2 ''$token'' ''{}'' [VarRef ''token''] False)) \<and>
   map_option fst (parse_variables_mapping sample_env failing_before_self False initial_state)
     = Some (Inl TypeError) \<and>
   ''b'' \<in> extract_variables (PLazy (LazyString 1 ''$b'' ''{}'' [VarRef ''b''] False)) \<and>
   map_option fst (parse_variables_mapping sample_env two_self_references False initial_state)
     = Some (Inl (VariableNotFound ''a''))"
proof -
  have 1: "''token'' \<in> extract_variables
             (PLazy (LazyString 2 ''$token'' ''{}'' [VarRef ''token''] False))"
    by (simp add: match_variable_def is_word_def)
  have "fst (variables_for_loop sample_env False failing_before_self [] initial_state)
      = Inl TypeError"
    by (simp add: failing_before_self_def dict_has_def match_variable_def is_word_def
          sample_env_def sample_call_def initial_state_def)
  then obtain s where run:
    "variables_for_loop sample_env False failing_before_self [] initial_state = (Inl TypeError, s)"
    by (cases "variables_for_loop sample_env False failing_before_self [] initial_state") simp
  have len: "failing_before_self \<noteq> []"
    by (simp add: failing_before_self_def)
  have 2: "map_option fst
        (parse_variables_mapping sample_env failing_before_self False initial_state)
      = Some (Inl TypeError)"
    unfolding parse_variables_mapping_def
    by (subst variables_while_loop.simps) (simp add: run len)
  have 3: "''b'' \<in> extract_variables (PLazy (LazyString 1 ''$b'' ''{}'' [VarRef ''b''] False))"
    by (simp add: match_variable_def is_word_def)
  have "variables_for_loop sample_env False two_self_references [] initial_state
      = (Inl (VariableNotFound ''a''), initial_state)"
    by (simp add: two_self_references_def dict_has_def match_variable_def is_word_def)
  moreover have "two_self_references \<noteq> []"
    by (simp add: two_self_references_def)
  ultimately have 4: "map_option fst
        (parse_variables_mapping sample_env two_self_references False initial_state)
      = Some (Inl (VariableNotFound ''a''))"
    unfolding parse_variables_mapping_def
    by (subst variables_while_loop.simps) simp
  from 1 2 3 4 show ?thesis by simp
qed

text \<open>
  Claim C5, amended. When \<^verbatim>\<open>ignore\<close> is false and an entry references its own name,
  \<^verbatim>\<open>parse_variables_mapping\<close> raises \<open>VariableNotFound\<close> naming that entry provided the
  entries before it, in the order of the dict, are processed without an exception
  (so it names the first self-referencing entry); in every case it raises and returns
  no result. When \<^verbatim>\<open>ignore\<close> is true, the first run over the entries places the value
  of every self-referencing entry in the result unchanged, still lazy, and goes on
  with the next entry; the value is still there when the function returns.
\<close>

theorem self_reference_policy:
  "(vm = before @ (name, val) # after \<and> name \<in> extract_variables val
    \<and> name \<notin> fst ` set before
    \<and> variables_for_loop E False before [] st = (Inr p, st1)
    \<longrightarrow> parse_variables_mapping E vm False st = Some (Inl (VariableNotFound name), st1)) \<and>
   (distinct (map fst vm) \<and> (name, val) \<in> set vm \<and> name \<in> extract_variables val
    \<longrightarrow> (\<exists>e st'. parse_variables_mapping E vm False st = Some (Inl e, st')) \<and>
        (\<forall>p' st'. variables_for_loop E True vm [] st = (Inr p', st')
           \<longrightarrow> map_of p' name = Some val) \<and>
        (\<forall>parsed st'. parse_variables_mapping E vm True st = Some (Inr parsed, st')
           \<longrightarrow> map_of parsed name = Some val))"
  using self_reference_raises [of vm before name val after E st p st1]
    self_reference_never_returns [of vm name val E st]
    ignored_self_reference_first_run [of E vm st _ _ name val]
    ignored_self_reference_kept [of E vm st _ _ name val]
  by blast

definition token_mapping :: "(string \<times> pyval) list" where
  "token_mapping =
     [(''x'', PInt 1),
      (''token'', PLazy (LazyString 0 ''$token'' ''{}'' [VarRef ''token''] False))]"

theorem self_reference_policy_witness:
  "parse_variables_mapping sample_env token_mapping False initial_state
     = Some (Inl (VariableNotFound ''token''), initial_state) \<and>
   parse_variables_mapping sample_env token_mapping True initial_state
     = Some (Inr token_mapping, initial_state) \<and>
   map_of token_mapping ''token''
     = Some (PLazy (LazyString 0 ''$token'' ''{}'' [VarRef ''token''] False))"
proof -
  let ?val = "PLazy (LazyString 0 ''$token'' ''{}'' [VarRef ''token''] False)"
  have split: "token_mapping = [(''x'', PInt 1)] @ (''token'', ?val) # []"
    by (simp add: token_mapping_def)
  have self: "''token'' \<in> extract_variables ?val"
    by (simp add: match_variable_def is_word_def)
  have fresh: "''token'' \<notin> fst ` set [(''x'', PInt 1)]" by simp
  have before: "variables_for_loop sample_env False [(''x'', PInt 1)] [] initial_state
      = (Inr [(''x'', PInt 1)], initial_state)"
    by (simp add: dict_has_def)
  have dist: "distinct (map fst token_mapping)"
    and mem: "(''token'', ?val) \<in> set token_mapping"
    by (simp_all add: token_mapping_def)
  have run: "variables_for_loop sample_env True token_mapping [] initial_state
      = (Inr token_mapping, initial_state)"
    by (simp add: token_mapping_def dict_has_def match_variable_def is_word_def)
  have len: "token_mapping \<noteq> []"
    by (simp add: token_mapping_def)
  have ret: "parse_variables_mapping sample_env token_mapping True initial_state
      = Some (Inr token_mapping, initial_state)"
    unfolding parse_variables_mapping_def
    using run len
    by (subst variables_while_loop.simps, simp, subst variables_while_loop.simps, simp)
  note inst = self_reference_policy
      [where vm = token_mapping and before = "[(''x'', PInt 1)]" and name = "''token''"
         and val = ?val and after = "[]" and E = sample_env and st = initial_state
         and p = "[(''x'', PInt 1)]" and ?st1.0 = initial_state]
  from inst split self fresh before
  have r1: "parse_variables_mapping sample_env token_mapping False initial_state
      = Some (Inl (VariableNotFound ''token''), initial_state)"
    by (elim conjE) simp
  from inst dist mem self ret
  have r2: "map_of token_mapping ''token'' = Some ?val"
    by (elim conjE) simp
  from r1 ret r2 show ?thesis by simp
qed

section \<open>Properties of the evaluation\<close>

subsection \<open>The cache of function results\<close>

lemma LazyFunction_to_value_sets_key:
  assumes "LazyFunction_to_value E f vm st = (Inr v, st1)"
  shows "\<exists>args kwargs. cache_keys st1 (lf_id f)
           = Some (func_name (lf_func f), py_repr E (PList args), py_repr E (PDict kwargs))"
proof (cases "parse_items E (lf_args f) vm st")
  case (Pair r1 s1)
  show ?thesis
  proof (cases r1)
    case (Inl e)
    with assms Pair show ?thesis by simp
  next
    case args: (Inr args)
    show ?thesis
    proof (cases "parse_dict E (lf_kwargs f) [] vm s1")
      case p2: (Pair r2 s2)
      show ?thesis
      proof (cases r2)
        case (Inl e)
        with assms Pair args p2 show ?thesis by simp
      next
        case kwargs: (Inr kwargs)
        with assms Pair args p2 have
          "cache_keys st1 (lf_id f)
             = Some (func_name (lf_func f), py_repr E (PList args), py_repr E (PDict kwargs))"
          by (auto simp: Let_def split: prod.splits)
        then show ?thesis by blast
      qed
    qed
  qed
qed

lemma function_arg_value_entry:
  assumes "function_arg_value E cached f vm st = (Inr v, st1)"
  shows "\<exists>k. cache_keys st1 (lf_id f) = Some k \<and> cached_functions_mapping st1 (Some k) = Some v"
proof (cases "cached \<and> cache_keys st (lf_id f) \<noteq> None
    \<and> cached_functions_mapping st (cache_keys st (lf_id f)) \<noteq> None")
  case True
  with assms show ?thesis by (auto split: option.splits)
next
  case False
  with assms obtain s where run: "LazyFunction_to_value E f vm st = (Inr v, s)"
    and st1: "st1 = s\<lparr>cached_functions_mapping :=
        (cached_functions_mapping s)(cache_keys s (lf_id f) \<mapsto> v)\<rparr>"
    by (auto split: prod.splits sum.splits)
  from LazyFunction_to_value_sets_key [OF run] obtain k where "cache_keys s (lf_id f) = Some k"
    by blast
  with st1 show ?thesis by simp
qed

lemma cache_entry_write:
  "cache_entry st i \<Longrightarrow>
     cache_entry (st\<lparr>cached_functions_mapping := (cached_functions_mapping st)(k \<mapsto> v)\<rparr>) i"
  by (auto simp: cache_entry_def split: option.splits)

lemma cache_entry_key:
  "i \<noteq> j \<Longrightarrow> cache_entry (st\<lparr>cache_keys := (cache_keys st)(j \<mapsto> k)\<rparr>) i = cache_entry st i"
  by (simp add: cache_entry_def split: option.splits)

lemma cache_entry_world: "cache_entry (st\<lparr>world := w\<rparr>) i = cache_entry st i"
  by (simp add: cache_entry_def split: option.splits)

lemma evaluation_keeps_entries:
  "parse_lazy_data E content vm st = (Inr r1, st') \<Longrightarrow> cache_entry st i \<Longrightarrow> cache_entry st' i"
  "parse_items E items vm st = (Inr r2, st') \<Longrightarrow> cache_entry st i \<Longrightarrow> cache_entry st' i"
  "parse_dict E d acc vm st = (Inr r3, st') \<Longrightarrow> cache_entry st i \<Longrightarrow> cache_entry st' i"
  "LazyString_to_value E l vm st = (Inr r4, st') \<Longrightarrow> cache_entry st i \<Longrightarrow> cache_entry st' i"
  "args_loop E cached args vm st = (Inr r5, st') \<Longrightarrow> cache_entry st i \<Longrightarrow> cache_entry st' i"
  "function_arg_value E cached f vm st = (Inr r6, st') \<Longrightarrow> cache_entry st i \<Longrightarrow>
     cache_entry st' i"
  "LazyFunction_to_value E f vm st = (Inr r7, st') \<Longrightarrow> cache_entry st i \<Longrightarrow> i \<noteq> lf_id f \<Longrightarrow>
     cache_entry st' i"
proof (induction E content vm st and E items vm st and E d acc vm st and E l vm st
    and E cached args vm st and E cached f vm st and E f vm st
    arbitrary: r1 st' and r2 st' and r3 st' and r4 st' and r5 st' and r6 st' and r7 st'
    rule: parse_lazy_data_parse_items_parse_dict_LazyString_to_value_args_loop_function_arg_value_LazyFunction_to_value.induct)
  case (19 E cached f vm st)
  show ?case
  proof (cases "cached \<and> cache_keys st (lf_id f) \<noteq> None
      \<and> cached_functions_mapping st (cache_keys st (lf_id f)) \<noteq> None")
    case True
    with "19.prems" show ?thesis by (auto split: option.splits)
  next
    case False
    with "19.prems"(1) obtain s where run: "LazyFunction_to_value E f vm st = (Inr r6, s)"
      and st': "st' = s\<lparr>cached_functions_mapping :=
          (cached_functions_mapping s)(cache_keys s (lf_id f) \<mapsto> r6)\<rparr>"
      by (auto simp del: LazyFunction_to_value.simps split: prod.splits sum.splits)
    show ?thesis
    proof (cases "i = lf_id f")
      case True
      from LazyFunction_to_value_sets_key [OF run] obtain k
        where "cache_keys s (lf_id f) = Some k" by blast
      with st' True show ?thesis by (simp add: cache_entry_def)
    next
      case neq: False
      from "19.IH" [OF False run "19.prems"(2) neq] have "cache_entry s i" .
      then show ?thesis unfolding st' by (rule cache_entry_write)
    qed
  qed
qed (auto simp: cache_entry_key cache_entry_world Let_def
          split: prod.splits sum.splits option.splits list.splits if_splits)

lemma args_loop_entries:
  "args_loop E cached args vm st = (Inr vs, st') \<Longrightarrow> FuncRef f \<in> set args \<Longrightarrow>
     cache_entry st' (lf_id f)"
proof (induction args arbitrary: st vs)
  case Nil
  then show ?case by simp
next
  case (Cons a args)
  show ?case
  proof (cases a)
    case (VarRef name)
    with Cons.prems obtain ws where "args_loop E cached args vm st = (Inr ws, st')"
      and "FuncRef f \<in> set args"
      by (auto split: sum.splits prod.splits)
    then show ?thesis by (rule Cons.IH)
  next
    case (FuncRef g)
    with Cons.prems(1) obtain v s ws where g: "function_arg_value E cached g vm st = (Inr v, s)"
      and rest: "args_loop E cached args vm s = (Inr ws, st')"
      by (auto simp del: function_arg_value.simps split: sum.splits prod.splits)
    show ?thesis
    proof (cases "FuncRef f \<in> set args")
      case True
      with rest show ?thesis by (rule Cons.IH)
    next
      case False
      with Cons.prems(2) FuncRef have "g = f" by simp
      with function_arg_value_entry [OF g] have "cache_entry s (lf_id f)"
        by (auto simp: cache_entry_def)
      with rest show ?thesis by (rule evaluation_keeps_entries(5))
    qed
  qed
qed

lemma args_loop_prefix:
  "args_loop E cached (pre @ FuncRef f # post) vm st = (Inr args, st') \<Longrightarrow>
     \<exists>vs v s k. args_loop E cached (pre @ [FuncRef f]) vm st = (Inr (vs @ [v]), s)
       \<and> cache_keys s (lf_id f) = Some k \<and> cached_functions_mapping s (Some k) = Some v"
proof (induction pre arbitrary: st args)
  case Nil
  then obtain v s where f: "function_arg_value E cached f vm st = (Inr v, s)"
    by (auto simp del: function_arg_value.simps split: sum.splits prod.splits)
  from function_arg_value_entry [OF f] obtain k where "cache_keys s (lf_id f) = Some k"
    and "cached_functions_mapping s (Some k) = Some v"
    by blast
  moreover from f have "args_loop E cached ([] @ [FuncRef f]) vm st = (Inr ([] @ [v]), s)"
    by (simp del: function_arg_value.simps)
  ultimately show ?case by blast
next
  case (Cons a pre)
  show ?case
  proof (cases a)
    case (VarRef name)
    with Cons.prems obtain x ws where x: "get_mapping_variable name vm = Inr x"
      and rest: "args_loop E cached (pre @ FuncRef f # post) vm st = (Inr ws, st')"
      by (auto split: sum.splits prod.splits)
    from Cons.IH [OF rest] obtain vs v s k
      where "args_loop E cached (pre @ [FuncRef f]) vm st = (Inr (vs @ [v]), s)"
        and k: "cache_keys s (lf_id f) = Some k \<and> cached_functions_mapping s (Some k) = Some v"
      by blast
    with x VarRef
    have "args_loop E cached ((a # pre) @ [FuncRef f]) vm st = (Inr ((x # vs) @ [v]), s)"
      by simp
    with k show ?thesis by blast
  next
    case (FuncRef g)
    with Cons.prems obtain x s1 ws where g: "function_arg_value E cached g vm st = (Inr x, s1)"
      and rest: "args_loop E cached (pre @ FuncRef f # post) vm s1 = (Inr ws, st')"
      by (auto simp del: function_arg_value.simps split: sum.splits prod.splits)
    from Cons.IH [OF rest] obtain vs v s k
      where "args_loop E cached (pre @ [FuncRef f]) vm s1 = (Inr (vs @ [v]), s)"
        and k: "cache_keys s (lf_id f) = Some k \<and> cached_functions_mapping s (Some k) = Some v"
      by blast
    with g FuncRef
    have "args_loop E cached ((a # pre) @ [FuncRef f]) vm st = (Inr ((x # vs) @ [v]), s)"
      by (simp del: function_arg_value.simps)
    with k show ?thesis by blast
  qed
qed

lemma LazyString_to_value_args:
  "LazyString_to_value E l vm st = (Inr r, st') \<Longrightarrow>
     \<exists>args. args_loop E (ls_cached l) (ls_args l) vm st = (Inr args, st')"
  by (auto split: sum.splits prod.splits if_splits list.splits)

lemma function_arg_value_miss:
  assumes run: "LazyFunction_to_value E f vm st = (Inr v, st1)"
    and miss: "\<not> cached \<or> cache_keys st (lf_id f) = None
       \<or> cached_functions_mapping st (cache_keys st (lf_id f)) = None"
  shows "\<exists>k. cache_keys st1 (lf_id f) = Some k \<and>
           function_arg_value E cached f vm st
             = (Inr v, st1\<lparr>cached_functions_mapping :=
                             (cached_functions_mapping st1)(Some k \<mapsto> v)\<rparr>)"
proof -
  from LazyFunction_to_value_sets_key [OF run]
  obtain k where k: "cache_keys st1 (lf_id f) = Some k" by blast
  from run miss k have "function_arg_value E cached f vm st
      = (Inr v, st1\<lparr>cached_functions_mapping := (cached_functions_mapping st1)(Some k \<mapsto> v)\<rparr>)"
    by (auto simp del: LazyFunction_to_value.simps)
  with k show ?thesis by blast
qed

text \<open>
  Claim C10. Every evaluation of a \<^verbatim>\<open>LazyFunction\<close> argument inside
  \<^verbatim>\<open>LazyString.to_value\<close> stores its result in \<^verbatim>\<open>cached_functions_mapping\<close> under the
  cache key of the function, whether or not the lazy string was built with
  \<^verbatim>\<open>cached=True\<close>. When \<^verbatim>\<open>to_value\<close> returns, every function argument of the lazy string
  has a cache key with an entry in the cache; and when the loop of \<^verbatim>\<open>to_value\<close> has
  handled a function argument, the cache holds the value of that argument under the
  key of the function. For a lazy string that is one function call: when the cache is
  not used (the flag is off, the function has no key yet, or the key has no entry) and
  the call returns \<open>v\<close>, \<^verbatim>\<open>to_value\<close> returns \<open>v\<close> in the state after the call with \<open>v\<close>
  written under the key that the call has just set. The flag only decides whether the
  cache is consulted: with the flag on and an entry under the key of the function,
  \<^verbatim>\<open>to_value\<close> returns the entry, nothing is called and nothing is written.
\<close>

theorem to_value_writes_cache:
  "(LazyString_to_value E l vm st = (Inr r, st') \<and> FuncRef f \<in> set (ls_args l)
    \<longrightarrow> cache_entry st' (lf_id f)) \<and>
   (LazyString_to_value E l vm st = (Inr r, st') \<and> ls_args l = pre @ FuncRef f # post
    \<longrightarrow> (\<exists>vs v s k. args_loop E (ls_cached l) (pre @ [FuncRef f]) vm st = (Inr (vs @ [v]), s)
           \<and> cache_keys s (lf_id f) = Some k \<and> cached_functions_mapping s (Some k) = Some v)) \<and>
   (ls_args l = [FuncRef f] \<and> ls_string l = ''{}''
    \<and> LazyFunction_to_value E f vm st = (Inr v, st1)
    \<and> (\<not> ls_cached l \<or> cache_keys st (lf_id f) = None
         \<or> cached_functions_mapping st (cache_keys st (lf_id f)) = None)
    \<longrightarrow> (\<exists>k. cache_keys st1 (lf_id f) = Some k \<and>
           LazyString_to_value E l vm st
             = (Inr v, st1\<lparr>cached_functions_mapping :=
                             (cached_functions_mapping st1)(Some k \<mapsto> v)\<rparr>))) \<and>
   (ls_args l = [FuncRef f] \<and> ls_string l = ''{}'' \<and> ls_cached l
    \<and> cache_keys st (lf_id f) = Some k' \<and> cached_functions_mapping st (Some k') = Some v'
    \<longrightarrow> LazyString_to_value E l vm st = (Inr v', st))"
proof (intro conjI impI)
  assume a: "LazyString_to_value E l vm st = (Inr r, st') \<and> FuncRef f \<in> set (ls_args l)"
  with LazyString_to_value_args [of E l vm st r st'] obtain args
    where "args_loop E (ls_cached l) (ls_args l) vm st = (Inr args, st')" by blast
  with a show "cache_entry st' (lf_id f)" by (auto intro: args_loop_entries)
next
  assume a: "LazyString_to_value E l vm st = (Inr r, st') \<and> ls_args l = pre @ FuncRef f # post"
  with LazyString_to_value_args [of E l vm st r st'] obtain args
    where "args_loop E (ls_cached l) (pre @ FuncRef f # post) vm st = (Inr args, st')" by auto
  then show "\<exists>vs v s k. args_loop E (ls_cached l) (pre @ [FuncRef f]) vm st = (Inr (vs @ [v]), s)
           \<and> cache_keys s (lf_id f) = Some k \<and> cached_functions_mapping s (Some k) = Some v"
    by (rule args_loop_prefix)
next
  assume a: "ls_args l = [FuncRef f] \<and> ls_string l = ''{}''
    \<and> LazyFunction_to_value E f vm st = (Inr v, st1)
    \<and> (\<not> ls_cached l \<or> cache_keys st (lf_id f) = None
         \<or> cached_functions_mapping st (cache_keys st (lf_id f)) = None)"
  then have run: "LazyFunction_to_value E f vm st = (Inr v, st1)"
    and miss: "\<not> ls_cached l \<or> cache_keys st (lf_id f) = None
         \<or> cached_functions_mapping st (cache_keys st (lf_id f)) = None"
    by simp_all
  from function_arg_value_miss [OF run miss] obtain k
    where k: "cache_keys st1 (lf_id f) = Some k"
      and w: "function_arg_value E (ls_cached l) f vm st
             = (Inr v, st1\<lparr>cached_functions_mapping :=
                             (cached_functions_mapping st1)(Some k \<mapsto> v)\<rparr>)"
    by blast
  from a w have "LazyString_to_value E l vm st
             = (Inr v, st1\<lparr>cached_functions_mapping :=
                             (cached_functions_mapping st1)(Some k \<mapsto> v)\<rparr>)"
    by (simp del: function_arg_value.simps)
  with k show "\<exists>k. cache_keys st1 (lf_id f) = Some k \<and>
           LazyString_to_value E l vm st
             = (Inr v, st1\<lparr>cached_functions_mapping :=
                             (cached_functions_mapping st1)(Some k \<mapsto> v)\<rparr>)"
    by blast
next
  assume "ls_args l = [FuncRef f] \<and> ls_string l = ''{}'' \<and> ls_cached l
    \<and> cache_keys st (lf_id f) = Some k' \<and> cached_functions_mapping st (Some k') = Some v'"
  then show "LazyString_to_value E l vm st = (Inr v', st)" by simp
qed

theorem to_value_writes_cache_witness:
  "LazyString_to_value sample_env
       (LazyString 0 ''${rand()}'' ''{}'' [FuncRef (LazyFunction 1 (Function ''rand'' 1) [] [])] False)
       [] initial_state
     = (Inr (PInt 0),
        initial_state\<lparr>cache_keys := (cache_keys initial_state)(1 \<mapsto> (''rand'', ''[]'', ''{}'')),
                       world := 1,
                       cached_functions_mapping :=
                         (cached_functions_mapping initial_state)
                           (Some (''rand'', ''[]'', ''{}'') \<mapsto> PInt 0)\<rparr>) \<and>
   cache_entry
     (initial_state\<lparr>cache_keys := (cache_keys initial_state)(1 \<mapsto> (''rand'', ''[]'', ''{}'')),
                    world := 1,
                    cached_functions_mapping :=
                      (cached_functions_mapping initial_state)
                        (Some (''rand'', ''[]'', ''{}'') \<mapsto> PInt 0)\<rparr>) 1 \<and>
   (\<exists>vs v s k.
      args_loop sample_env False ([] @ [FuncRef (LazyFunction 1 (Function ''rand'' 1) [] [])]) []
          initial_state
        = (Inr (vs @ [v]), s)
      \<and> cache_keys s 1 = Some k \<and> cached_functions_mapping s (Some k) = Some v) \<and>
   LazyString_to_value sample_env
       (LazyString 0 ''${rand()}'' ''{}'' [FuncRef (LazyFunction 1 (Function ''rand'' 1) [] [])] True)
       []
       (initial_state\<lparr>cache_keys := (cache_keys initial_state)(1 \<mapsto> (''rand'', ''[]'', ''{}'')),
                      cached_functions_mapping :=
                        (cached_functions_mapping initial_state)
                          (Some (''rand'', ''[]'', ''{}'') \<mapsto> PInt 7)\<rparr>)
     = (Inr (PInt 7),
        initial_state\<lparr>cache_keys := (cache_keys initial_state)(1 \<mapsto> (''rand'', ''[]'', ''{}'')),
                      cached_functions_mapping :=
                        (cached_functions_mapping initial_state)
                          (Some (''rand'', ''[]'', ''{}'') \<mapsto> PInt 7)\<rparr>)"
proof -
  let ?f = "LazyFunction 1 (Function ''rand'' 1) [] []"
  let ?l = "LazyString 0 ''${rand()}'' ''{}'' [FuncRef ?f] False"
  let ?lc = "LazyString 0 ''${rand()}'' ''{}'' [FuncRef ?f] True"
  let ?k = "(''rand'', ''[]'', ''{}'')"
  let ?s1 = "initial_state\<lparr>cache_keys := (cache_keys initial_state)(1 \<mapsto> ?k), world := 1\<rparr>"
  let ?s2 = "initial_state\<lparr>cache_keys := (cache_keys initial_state)(1 \<mapsto> ?k),
                      cached_functions_mapping :=
                        (cached_functions_mapping initial_state)(Some ?k \<mapsto> PInt 7)\<rparr>"
  let ?s3 = "?s1\<lparr>cached_functions_mapping := (cached_functions_mapping ?s1)(Some ?k \<mapsto> PInt 0)\<rparr>"
  have call: "LazyFunction_to_value sample_env ?f [] initial_state = (Inr (PInt 0), ?s1)"
    by (simp add: sample_env_def initial_state_def sample_call_def)
  have shape: "ls_args ?l = [FuncRef ?f]" "ls_string ?l = ''{}''" "\<not> ls_cached ?l"
    "ls_args ?lc = [FuncRef ?f]" "ls_string ?lc = ''{}''" "ls_cached ?lc"
    "FuncRef ?f \<in> set (ls_args ?l)" "ls_args ?l = [] @ FuncRef ?f # []" "lf_id ?f = 1"
    by simp_all
  have key: "cache_keys ?s1 (lf_id ?f) = Some ?k" by simp
  have hit: "cache_keys ?s2 (lf_id ?f) = Some ?k"
    "cached_functions_mapping ?s2 (Some ?k) = Some (PInt 7)"
    by simp_all
  note miss = to_value_writes_cache [where E = sample_env and l = ?l and vm = "[]"
      and st = initial_state and f = ?f and v = "PInt 0" and ?st1.0 = ?s1]
  from miss call shape key
  have run: "LazyString_to_value sample_env ?l [] initial_state = (Inr (PInt 0), ?s3)"
    by (auto simp del: LazyString_to_value.simps LazyFunction_to_value.simps)
  note all = to_value_writes_cache [where E = sample_env and l = ?l and vm = "[]"
      and st = initial_state and f = ?f and r = "PInt 0" and st' = ?s3
      and pre = "[]" and post = "[]"]
  from all run shape
  have entry: "cache_entry ?s3 1"
    and step: "\<exists>vs v s k.
      args_loop sample_env False ([] @ [FuncRef ?f]) [] initial_state = (Inr (vs @ [v]), s)
      \<and> cache_keys s 1 = Some k \<and> cached_functions_mapping s (Some k) = Some v"
    by (simp_all del: LazyString_to_value.simps args_loop.simps)
  note cached = to_value_writes_cache [where E = sample_env and l = ?lc and vm = "[]"
      and st = ?s2 and f = ?f and k' = ?k and v' = "PInt 7"]
  from cached shape hit
  have second: "LazyString_to_value sample_env ?lc [] ?s2 = (Inr (PInt 7), ?s2)"
    by (simp del: LazyString_to_value.simps)
  from run entry step second show ?thesis
    by (simp del: LazyString_to_value.simps args_loop.simps add: initial_state_def)
qed

subsection \<open>What evaluation writes into lazy objects\<close>

lemma same_keys_refl: "same_keys_outside ids st st"
  by (simp add: same_keys_outside_def)


definition rand_string :: lazy_string where
  "rand_string =
     LazyString 0 ''${rand()}'' ''{}'' [FuncRef (LazyFunction 1 (Function ''rand'' 1) [] [])] False"

lemma rand_string_prepared:
  "prepare_lazy_data sample_env sample_functions {} False (PStr ''${rand()}'') 0
     = Inr (PLazy rand_string, 2)"
  by (simp add: rand_string_def is_variable_exist_def is_function_exist_def
        match_variable_def match_function_def is_word_def is_param_char_def is_space_def
        strip_def str_index_def parse_function_params_def get_mapping_function_def
        sample_functions_def numeral_2_eq_2)





subsection \<open>The value of a lazy string\<close>




lemma LazyString_to_value_single_variable:
  assumes "ls_string l = ''{}''" and "ls_args l = [VarRef name]"
    and "map_of vm name = Some v"
  shows "LazyString_to_value E l vm st = (Inr v, st)"
  using assms by (simp add: get_mapping_variable_def)

definition braces_string :: lazy_string where
  "braces_string = LazyString 0 ''{$a}'' ''{{}}'' [VarRef ''a''] False"

lemma braces_string_prepared:
  "prepare_lazy_data sample_env sample_functions {''a''} False (PStr ''{$a}'') 0
     = Inr (PLazy braces_string, 1)"
  by (simp add: braces_string_def is_variable_exist_def is_function_exist_def
        match_variable_def match_function_def is_word_def is_space_def strip_def
        str_index_def)




section \<open>Properties of the preparation\<close>

subsection \<open>Matches and surrounding whitespace\<close>















subsection \<open>The loop over the variable references\<close>











subsection \<open>The loop over the function calls\<close>


lemma lazy_variables_of_literal [simp]: "lazy_variables (of_literal l) = {}"
  by (cases l) simp_all

lemma lazy_variables_parse_string_value [simp]:
  "lazy_variables (parse_string_value E s) = {}"
  by (simp add: parse_string_value_def split: option.splits)

lemma lazy_variables_items_append [simp]:
  "lazy_variables_items (xs @ ys) = lazy_variables_items xs \<union> lazy_variables_items ys"
  by (induction xs) auto




subsection \<open>The references kept by a successful preparation\<close>


subsection \<open>Unknown references\<close>



subsection \<open>The arguments of a function call\<close>



























text \<open>
  A keyword argument that is given twice is overwritten in \<^verbatim>\<open>parse_function_params\<close>
  before anything is checked: of \<^verbatim>\<open>${add(a=$x, a=1)}\<close> only \<^verbatim>\<open>a=1\<close> is kept, so the
  unknown \<open>x\<close> is never looked at and the preparation returns.
\<close>

lemma duplicate_keyword_dropped:
  "parse_function_params sample_env ''a=$x, a=1'' = Inr ([], [(PStr ''a'', PInt 1)]) \<and>
   prepare_lazy_data sample_env sample_functions {''a''} False (PStr ''${add(a=$x, a=1)}'') 0
     = Inr (PLazy (LazyString 0 ''${add(a=$x, a=1)}'' ''{}''
              [FuncRef (LazyFunction 1 (Function ''add'' 0) [] [(PStr ''a'', PInt 1)])] False), 2)"
  by (simp add: is_variable_exist_def is_function_exist_def
        match_variable_def match_function_def is_word_def is_param_char_def is_space_def
        strip_def str_index_def parse_function_params_def get_mapping_function_def
        parse_string_value_def sample_literal_eval_def is_digit_def key_eq_def
        sample_functions_def sample_env_def numeral_2_eq_2)



end
